theory Spec2Isabelle
  imports Main "HOL-Library.Word" "HOL-Library.AList" "HOL-Library.Sublist"
begin

section \<open>Strings, buffers and the runtime's string operations\<close>

text \<open>
  A JavaScript string is a sequence of UTF-16 code units; a Buffer (the chunk the upstream
  stream delivers) is a sequence of bytes. String literals of the source are written with
  \<open>lit\<close>; the line feed, which Isabelle's string literals cannot hold, is \<open>NL\<close>.
\<close>

type_synonym ustring = "16 word list"
type_synonym bytes = "8 word list"

definition lit :: "string \<Rightarrow> ustring" where
  "lit s = map of_char s"

abbreviation NL :: "16 word" where
  "NL \<equiv> 0x0A"

text \<open>
  \<open>String.prototype.trim\<close>: removes leading and trailing WhiteSpace and LineTerminator
  code units (ECMAScript: TAB, VT, FF, ZWNBSP, the space separators; LF, CR, LS, PS).
\<close>

definition is_ws :: "16 word \<Rightarrow> bool" where
  "is_ws c = (c = 0x09 \<or> c = 0x0A \<or> c = 0x0B \<or> c = 0x0C \<or> c = 0x0D \<or> c = 0x20 \<or> c = 0xA0
     \<or> c = 0x1680 \<or> (0x2000 \<le> c \<and> c \<le> 0x200A) \<or> c = 0x2028 \<or> c = 0x2029 \<or> c = 0x202F
     \<or> c = 0x205F \<or> c = 0x3000 \<or> c = 0xFEFF)"

definition trim :: "ustring \<Rightarrow> ustring" where
  "trim s = rev (dropWhile is_ws (rev (dropWhile is_ws s)))"

text \<open>
  \<open>buffer.split('\n')\<close>: the segments between line feeds; \<open>n\<close> line feeds give
  \<open>n + 1\<close> segments, so the result is never empty and \<open>lines.pop()\<close> is its last
  segment.
\<close>

fun split_nl :: "ustring \<Rightarrow> ustring list" where
  "split_nl [] = [[]]"
| "split_nl (c # s) =
     (if c = NL then [] # split_nl s else (c # hd (split_nl s)) # tl (split_nl s))"

text \<open>
  \<open>chunk.toString()\<close> on a Buffer decodes the chunk's bytes as UTF-8, on its own: every
  ill-formed or truncated sequence becomes U+FFFD (one per maximal ill-formed subpart), and
  a code point above U+FFFF becomes a surrogate pair. This is the runtime's function, written
  out because the data handler calls it once per delivered chunk.
\<close>

definition cont :: "nat \<Rightarrow> bool" where
  "cont b = (0x80 \<le> b \<and> b \<le> 0xBF)"

definition utf16_units :: "nat \<Rightarrow> nat list" where
  "utf16_units cp =
     (if cp < 0x10000 then [cp]
      else [0xD800 + (cp - 0x10000) div 0x400, 0xDC00 + (cp - 0x10000) mod 0x400])"

fun utf8_decode :: "nat list \<Rightarrow> nat list" where
  "utf8_decode [] = []"
| "utf8_decode (b # bs) =
    (if b < 0x80 then b # utf8_decode bs
     else if 0xC2 \<le> b \<and> b \<le> 0xDF then
       (case bs of
          [] \<Rightarrow> [0xFFFD]
        | c1 # r1 \<Rightarrow>
            if cont c1 then ((b - 0xC0) * 64 + (c1 - 0x80)) # utf8_decode r1
            else 0xFFFD # utf8_decode bs)
     else if 0xE0 \<le> b \<and> b \<le> 0xEF then
       (case bs of
          [] \<Rightarrow> [0xFFFD]
        | c1 # r1 \<Rightarrow>
            if (if b = 0xE0 then 0xA0 else 0x80) \<le> c1 \<and> c1 \<le> (if b = 0xED then 0x9F else 0xBF) then
              (case r1 of
                 [] \<Rightarrow> [0xFFFD]
               | c2 # r2 \<Rightarrow>
                   if cont c2 then
                     ((b - 0xE0) * 4096 + (c1 - 0x80) * 64 + (c2 - 0x80)) # utf8_decode r2
                   else 0xFFFD # utf8_decode r1)
            else 0xFFFD # utf8_decode bs)
     else if 0xF0 \<le> b \<and> b \<le> 0xF4 then
       (case bs of
          [] \<Rightarrow> [0xFFFD]
        | c1 # r1 \<Rightarrow>
            if (if b = 0xF0 then 0x90 else 0x80) \<le> c1 \<and> c1 \<le> (if b = 0xF4 then 0x8F else 0xBF) then
              (case r1 of
                 [] \<Rightarrow> [0xFFFD]
               | c2 # r2 \<Rightarrow>
                   if cont c2 then
                     (case r2 of
                        [] \<Rightarrow> [0xFFFD]
                      | c3 # r3 \<Rightarrow>
                          if cont c3 then
                            utf16_units ((b - 0xF0) * 262144 + (c1 - 0x80) * 4096
                                          + (c2 - 0x80) * 64 + (c3 - 0x80))
                            @ utf8_decode r3
                          else 0xFFFD # utf8_decode r2)
                   else 0xFFFD # utf8_decode r1)
            else 0xFFFD # utf8_decode bs)
     else 0xFFFD # utf8_decode bs)"

definition toString :: "bytes \<Rightarrow> ustring" where
  "toString chunk = map of_nat (utf8_decode (map unat chunk))"

text \<open>Decimal digits of a number, as a template literal prints \<open>Date.now()\<close>.\<close>

fun decimal :: "nat \<Rightarrow> ustring" where
  "decimal n = (if n < 10 then [of_nat (48 + n)] else decimal (n div 10) @ [of_nat (48 + n mod 10)])"

declare decimal.simps [simp del]

section \<open>JSON values and the property operations the handler uses\<close>

text \<open>
  A decoded frame is a JSON value. An object keeps its properties in enumeration order
  (the order \<open>JSON.stringify\<close> writes them), with distinct keys. A number is kept as the
  text its string conversion gives (the handler never computes with one), so zero is
  \<open>lit ''0''\<close>. \<open>undefined\<close> is \<open>None\<close> of \<open>json option\<close>.
\<close>

datatype json =
    JNull
  | JBool bool
  | JNum ustring
  | JStr ustring
  | JArr "json list"
  | JObj "(ustring \<times> json) list"

datatype js_error = SyntaxError | TypeError

text \<open>\<open>v.k\<close> for a value that is neither null nor undefined, and a key no prototype defines.\<close>

fun get_prop :: "json \<Rightarrow> ustring \<Rightarrow> json option" where
  "get_prop (JObj kvs) k = map_of kvs k"
| "get_prop _ k = None"

text \<open>\<open>v[0]\<close>: the first element of an array, the property \<open>"0"\<close> of an object, the first
  code unit of a string.\<close>

fun index0 :: "json \<Rightarrow> json option" where
  "index0 (JArr xs) = (case xs of [] \<Rightarrow> None | x # _ \<Rightarrow> Some x)"
| "index0 (JObj kvs) = map_of kvs (lit ''0'')"
| "index0 (JStr s) = (case s of [] \<Rightarrow> None | c # _ \<Rightarrow> Some (JStr [c]))"
| "index0 _ = None"

text \<open>\<open>o.k = v\<close> keeps the place of an existing property and appends a new one; on a
  primitive it does nothing (the module is not in strict mode), and on an array it adds a
  named property that \<open>JSON.stringify\<close> does not write.\<close>

fun set_prop :: "ustring \<Rightarrow> json \<Rightarrow> json \<Rightarrow> json" where
  "set_prop k v (JObj kvs) = JObj (AList.update k v kvs)"
| "set_prop k v j = j"

fun delete_prop :: "ustring \<Rightarrow> json \<Rightarrow> json" where
  "delete_prop k (JObj kvs) = JObj (AList.delete k kvs)"
| "delete_prop k j = j"

fun set_index0 :: "json \<Rightarrow> json \<Rightarrow> json" where
  "set_index0 v (JArr (x # xs)) = JArr (v # xs)"
| "set_index0 v (JObj kvs) = JObj (AList.update (lit ''0'') v kvs)"
| "set_index0 v j = j"

text \<open>Truthiness, as \<open>if (x)\<close>, \<open>!x\<close> and \<open>x || y\<close> test it.\<close>

fun truthy :: "json \<Rightarrow> bool" where
  "truthy JNull = False"
| "truthy (JBool b) = b"
| "truthy (JNum n) = (n \<noteq> lit ''0'')"
| "truthy (JStr s) = (s \<noteq> [])"
| "truthy (JArr xs) = True"
| "truthy (JObj kvs) = True"

text \<open>\<open>x ?? null\<close>.\<close>

definition nullish :: "json option \<Rightarrow> json" where
  "nullish v = (case v of None \<Rightarrow> JNull | Some x \<Rightarrow> x)"

text \<open>
  String conversion, as \<open>inject += x\<close> and a template literal apply it to a value that is
  not a string: an array joins its elements with commas (null elements as the empty
  string); an object is \<open>[object Object]\<close>, unless it has a property \<open>toString\<close> of its own,
  which is not callable, and the conversion throws a TypeError.
\<close>

fun join :: "ustring \<Rightarrow> ustring list \<Rightarrow> ustring" where
  "join sep [] = []"
| "join sep [x] = x"
| "join sep (x # y # zs) = x @ sep @ join sep (y # zs)"

fun to_str :: "json \<Rightarrow> js_error + ustring" where
  "to_str JNull = Inr (lit ''null'')"
| "to_str (JBool b) = Inr (if b then lit ''true'' else lit ''false'')"
| "to_str (JNum n) = Inr n"
| "to_str (JStr s) = Inr s"
| "to_str (JArr xs) =
     (let parts = map (\<lambda>x. case x of JNull \<Rightarrow> Inr [] | _ \<Rightarrow> to_str x) xs
      in if list_ex isl parts then Inl TypeError else Inr (join (lit '','') (map projr parts)))"
| "to_str (JObj kvs) =
     (if map_of kvs (lit ''toString'') \<noteq> None then Inl TypeError else Inr (lit ''[object Object]''))"

section \<open>The streaming rewriter\<close>

text \<open>
  \<open>data.choices?.[0]?.delta\<close>. Reading \<open>choices\<close> of \<open>null\<close> throws; every later step
  short-circuits to \<open>undefined\<close> on \<open>null\<close> or \<open>undefined\<close>.
\<close>

definition first_delta :: "json \<Rightarrow> js_error + json option" where
  "first_delta data =
     (if data = JNull then Inl TypeError
      else Inr (case get_prop data (lit ''choices'') of
                  None \<Rightarrow> None
                | Some choices \<Rightarrow>
                    if choices = JNull then None
                    else (case index0 choices of
                            None \<Rightarrow> None
                          | Some choice \<Rightarrow>
                              if choice = JNull then None else get_prop choice (lit ''delta''))))"

text \<open>
  The handler mutates \<open>delta\<close>, which is the object inside \<open>data\<close>; \<open>put_delta\<close> writes
  the mutated delta back along the path \<open>data.choices[0].delta\<close> it was read from.
\<close>

definition put_delta :: "json \<Rightarrow> json \<Rightarrow> json" where
  "put_delta delta' data =
     (case get_prop data (lit ''choices'') of
        None \<Rightarrow> data
      | Some choices \<Rightarrow>
          (case index0 choices of
             None \<Rightarrow> data
           | Some choice \<Rightarrow>
               set_prop (lit ''choices'')
                 (set_index0 (set_prop (lit ''delta'') delta' choice) choices) data))"

text \<open>
  Lines 184-200: the string \<open>inject\<close> and the span flag. The result is the string, or the
  error a string conversion threw, with the flag as it stands at that point.
\<close>

definition build_inject :: "bool \<Rightarrow> json \<Rightarrow> json \<Rightarrow> (js_error + ustring) \<times> bool" where
  "build_inject thinkOpen reasoningChunk contentChunk =
     (let (r1, open1) =
            (if truthy reasoningChunk then
               (let (inject0, open0) =
                      (if \<not> thinkOpen then (lit ''<think>'' @ [NL], True) else ([], thinkOpen))
                in case to_str reasoningChunk of
                     Inl e \<Rightarrow> (Inl e, open0)
                   | Inr s \<Rightarrow> (Inr (inject0 @ s), open0))
             else (Inr [], thinkOpen))
      in case r1 of
           Inl e \<Rightarrow> (Inl e, open1)
         | Inr inject1 \<Rightarrow>
             if contentChunk \<noteq> JNull \<and> contentChunk \<noteq> JStr [] then
               (let (inject2, open2) =
                      (if open1 then (inject1 @ [NL] @ lit ''</think>'' @ [NL, NL], False)
                       else (inject1, open1))
                in case to_str contentChunk of
                     Inl e \<Rightarrow> (Inl e, open2)
                   | Inr s \<Rightarrow> (Inr (inject2 @ s), open2))
             else (Inr inject1, open1))"

text \<open>Line 202: \<open>inject || (contentChunk === '' ? '' : null)\<close>.\<close>

definition content_value :: "ustring \<Rightarrow> json \<Rightarrow> json" where
  "content_value inject contentChunk =
     (if inject \<noteq> [] then JStr inject else if contentChunk = JStr [] then JStr [] else JNull)"

text \<open>
  Lines 174-211, the body of the \<open>try\<close> after \<open>JSON.parse\<close>: the frame to write, or the
  error thrown, and the span flag.
\<close>

definition splice_frame :: "bool \<Rightarrow> bool \<Rightarrow> json \<Rightarrow> (js_error + json) \<times> bool" where
  "splice_frame showReasoning thinkOpen data =
     (case first_delta data of
        Inl e \<Rightarrow> (Inl e, thinkOpen)
      | Inr None \<Rightarrow> (Inr data, thinkOpen)
      | Inr (Some delta) \<Rightarrow>
          if \<not> truthy delta then (Inr data, thinkOpen)
          else
            (let reasoningChunk = nullish (get_prop delta (lit ''reasoning_content''));
                 contentChunk = nullish (get_prop delta (lit ''content''));
                 delta1 = delete_prop (lit ''reasoning_content'') delta
             in if showReasoning then
                  (case build_inject thinkOpen reasoningChunk contentChunk of
                     (Inl e, open') \<Rightarrow> (Inl e, open')
                   | (Inr inject, open') \<Rightarrow>
                       (let v = content_value inject contentChunk;
                            delta2 = (if v = JNull then delete_prop (lit ''content'') delta1
                                      else set_prop (lit ''content'') v delta1)
                        in (Inr (put_delta delta2 data), open')))
                else
                  (let delta2 = (if contentChunk \<noteq> JNull
                                 then set_prop (lit ''content'') contentChunk delta1
                                 else set_prop (lit ''content'') (JStr []) delta1)
                   in (Inr (put_delta delta2 data), thinkOpen))))"

text \<open>
  What \<open>res.write\<close> is given: \<open>DataRec d\<close> stands for the string
  \<open>data: \<close> + \<open>JSON.stringify(d)\<close> + two line feeds, \<open>Raw s\<close> for the string \<open>s\<close>.
\<close>

datatype wr = DataRec json | Raw ustring

text \<open>
  The environment of one request: the display toggle, the \<open>model\<close> of the request body
  (\<open>None\<close> when absent), \<open>JSON.parse\<close> (\<open>Inl\<close> when it throws) and the clock reading
  \<open>Date.now()\<close> returns (one reading for the whole stream).
\<close>

record env =
  SHOW_REASONING :: bool
  model :: "json option"
  JSON_parse :: "ustring \<Rightarrow> js_error + json"
  now :: nat

text \<open>\<open>buildDeltaChunk\<close>, as \<open>JSON.stringify\<close> sees its result (an undefined \<open>model\<close> is
  not written).\<close>

definition buildDeltaChunk :: "nat \<Rightarrow> json option \<Rightarrow> ustring \<Rightarrow> json" where
  "buildDeltaChunk t m content =
     JObj ([(lit ''id'', JStr (lit ''chatcmpl-inject-'' @ decimal t)),
            (lit ''object'', JStr (lit ''chat.completion.chunk'')),
            (lit ''created'', JNum (decimal (t div 1000)))]
           @ (case m of None \<Rightarrow> [] | Some mv \<Rightarrow> [(lit ''model'', mv)])
           @ [(lit ''choices'',
                JArr [JObj [(lit ''index'', JNum (lit ''0'')),
                            (lit ''delta'', JObj [(lit ''content'', JStr content)]),
                            (lit ''finish_reason'', JNull)]])])"

text \<open>Lines 153-215: one iteration of the loop over the complete lines.\<close>

definition handle_line :: "env \<Rightarrow> bool \<Rightarrow> ustring \<Rightarrow> wr list \<times> bool" where
  "handle_line e thinkOpen line =
     (let trimmed = trim line in
      if trimmed = [] then ([], thinkOpen)
      else if trimmed = lit ''data: [DONE]'' then
        (if thinkOpen \<and> SHOW_REASONING e then
           ([DataRec (buildDeltaChunk (now e) (model e) (lit ''</think>'' @ [NL, NL])),
             Raw (lit ''data: [DONE]'' @ [NL, NL])], False)
         else ([Raw (lit ''data: [DONE]'' @ [NL, NL])], thinkOpen))
      else if \<not> prefix (lit ''data: '') trimmed then ([Raw (trimmed @ [NL])], thinkOpen)
      else
        (case JSON_parse e (drop 6 trimmed) of
           Inl err \<Rightarrow> ([Raw (trimmed @ [NL])], thinkOpen)
         | Inr data \<Rightarrow>
             (case splice_frame (SHOW_REASONING e) thinkOpen data of
                (Inl err, open') \<Rightarrow> ([Raw (trimmed @ [NL])], open')
              | (Inr data', open') \<Rightarrow> ([DataRec data'], open'))))"

fun handle_lines :: "env \<Rightarrow> bool \<Rightarrow> ustring list \<Rightarrow> wr list \<times> bool" where
  "handle_lines e thinkOpen [] = ([], thinkOpen)"
| "handle_lines e thinkOpen (l # ls) =
     (let (out1, open1) = handle_line e thinkOpen l;
          (out2, open2) = handle_lines e open1 ls
      in (out1 @ out2, open2))"

text \<open>Lines 144-151: the state of one response stream and the \<open>data\<close> event handler.\<close>

record stream_state =
  buffer :: ustring
  thinkOpen :: bool

definition init_state :: stream_state where
  "init_state = \<lparr>buffer = [], thinkOpen = False\<rparr>"

definition on_data :: "env \<Rightarrow> stream_state \<Rightarrow> bytes \<Rightarrow> wr list \<times> stream_state" where
  "on_data e st chunk =
     (let buf = buffer st @ toString chunk;
          segs = split_nl buf;
          (out, open') = handle_lines e (thinkOpen st) (butlast segs)
      in (out, \<lparr>buffer = last segs, thinkOpen = open'\<rparr>))"

fun on_chunks :: "env \<Rightarrow> stream_state \<Rightarrow> bytes list \<Rightarrow> wr list \<times> stream_state" where
  "on_chunks e st [] = ([], st)"
| "on_chunks e st (c # cs) =
     (let (out1, st1) = on_data e st c;
          (out2, st2) = on_chunks e st1 cs
      in (out1 @ out2, st2))"

text \<open>Everything written to the client for a stream delivered as the chunks \<open>cs\<close>.\<close>

definition rewrite_stream :: "env \<Rightarrow> bytes list \<Rightarrow> wr list" where
  "rewrite_stream e cs = fst (on_chunks e init_state cs)"

section \<open>The non-streaming path, the request body and the error path\<close>

text \<open>\<open>a || b\<close> and \<open>a ?? b\<close> for a value that may be undefined; and a property of an object
  literal, which \<open>JSON.stringify\<close> leaves out when its value is undefined.\<close>

definition or_default :: "json option \<Rightarrow> json \<Rightarrow> json" where
  "or_default v d = (case v of None \<Rightarrow> d | Some x \<Rightarrow> if truthy x then x else d)"

definition nullish_default :: "json option \<Rightarrow> json \<Rightarrow> json" where
  "nullish_default v d = (case v of None \<Rightarrow> d | Some x \<Rightarrow> if x = JNull then d else x)"

definition opt_field :: "ustring \<Rightarrow> json option \<Rightarrow> (ustring \<times> json) list" where
  "opt_field k v = (case v of None \<Rightarrow> [] | Some x \<Rightarrow> [(k, x)])"

text \<open>
  Lines 109-115: the body of the upstream request. \<open>nimModel\<close> and \<open>finalMessages\<close> are what
  lines 93-106 computed (\<open>messages\<close> itself in the earlier version of the file); the three
  optional parameters are those of the request body, \<open>None\<close> when absent.
\<close>

definition nimRequestBody ::
  "json option \<Rightarrow> json option \<Rightarrow> json option \<Rightarrow> json option \<Rightarrow> json option \<Rightarrow> json" where
  "nimRequestBody nimModel finalMessages temperature max_tokens stream =
     JObj (opt_field (lit ''model'') nimModel @ opt_field (lit ''messages'') finalMessages @
           [(lit ''temperature'', nullish_default temperature (JNum (lit ''0.6''))),
            (lit ''max_tokens'', or_default max_tokens (JNum (lit ''16384''))),
            (lit ''stream'', or_default stream (JBool False))])"

text \<open>
  Lines 227-243: the function mapped over the choices of a complete response. Reading
  \<open>message\<close> of a null choice throws, and so does a string conversion in the template
  literal that throws.
\<close>

definition map_choice :: "bool \<Rightarrow> json \<Rightarrow> js_error + json" where
  "map_choice showReasoning choice =
     (if choice = JNull then Inl TypeError
      else
        (let msg = nullish_default (get_prop choice (lit ''message'')) (JObj []);
             content0 = nullish_default (get_prop msg (lit ''content'')) (JStr []);
             reasoning = get_prop msg (lit ''reasoning_content'');
             finalContent =
               (if showReasoning \<and> (case reasoning of None \<Rightarrow> False | Some r \<Rightarrow> truthy r) then
                  (case to_str (nullish reasoning) of
                     Inl err \<Rightarrow> Inl err
                   | Inr r \<Rightarrow>
                       (case to_str content0 of
                          Inl err \<Rightarrow> Inl err
                        | Inr c \<Rightarrow>
                            Inr (JStr (lit ''<think>'' @ [NL] @ r @ [NL] @ lit ''</think>''
                                       @ [NL, NL] @ c))))
                else Inr content0)
         in case finalContent of
              Inl err \<Rightarrow> Inl err
            | Inr fc \<Rightarrow>
                Inr (JObj (opt_field (lit ''index'') (get_prop choice (lit ''index'')) @
                           [(lit ''message'',
                               JObj [(lit ''role'',
                                        nullish_default (get_prop msg (lit ''role''))
                                          (JStr (lit ''assistant''))),
                                     (lit ''content'', fc)])] @
                           opt_field (lit ''finish_reason'')
                             (get_prop choice (lit ''finish_reason''))))))"

text \<open>The \<open>content\<close> of the message of a mapped choice.\<close>

definition message_content :: "json \<Rightarrow> json option" where
  "message_content c =
     (case get_prop c (lit ''message'') of None \<Rightarrow> None | Some m \<Rightarrow> get_prop m (lit ''content''))"

text \<open>
  Lines 227-252: the body of the non-streaming response. \<open>response.data.choices.map\<close>
  throws unless \<open>choices\<close> is an array, and when the mapped function throws.
\<close>

fun map_choices :: "bool \<Rightarrow> json list \<Rightarrow> js_error + json list" where
  "map_choices showReasoning [] = Inr []"
| "map_choices showReasoning (c # cs) =
     (case map_choice showReasoning c of
        Inl err \<Rightarrow> Inl err
      | Inr c' \<Rightarrow>
          (case map_choices showReasoning cs of Inl err \<Rightarrow> Inl err | Inr cs' \<Rightarrow> Inr (c' # cs')))"

definition complete_body :: "env \<Rightarrow> json \<Rightarrow> js_error + json" where
  "complete_body e data =
     (case get_prop data (lit ''choices'') of
        Some (JArr cs) \<Rightarrow>
          (case map_choices (SHOW_REASONING e) cs of
             Inl err \<Rightarrow> Inl err
           | Inr cs' \<Rightarrow>
               Inr (JObj ([(lit ''id'', JStr (lit ''chatcmpl-'' @ decimal (now e))),
                           (lit ''object'', JStr (lit ''chat.completion'')),
                           (lit ''created'', JNum (decimal (now e div 1000)))]
                          @ opt_field (lit ''model'') (model e)
                          @ [(lit ''choices'', JArr cs'),
                             (lit ''usage'',
                                nullish_default (get_prop data (lit ''usage''))
                                  (JObj [(lit ''prompt_tokens'', JNum (lit ''0'')),
                                         (lit ''completion_tokens'', JNum (lit ''0'')),
                                         (lit ''total_tokens'', JNum (lit ''0''))]))])))
      | _ \<Rightarrow> Inl TypeError)"

text \<open>
  The response object, as far as the handler uses it: whether the headers have gone out
  (\<open>res.headersSent\<close>), what was sent as body, and whether the response has ended.
  \<open>res.write\<close> sends the headers with the first record; \<open>res.status(s).json(b)\<close> sends a
  JSON body and ends the response; \<open>res.end()\<close> ends it.
\<close>

datatype sent = Record wr | JsonBody json json

record response =
  headersSent :: bool
  body :: "sent list"
  ended :: bool

definition new_response :: response where
  "new_response = \<lparr>headersSent = False, body = [], ended = False\<rparr>"

definition res_write :: "response \<Rightarrow> wr \<Rightarrow> response" where
  "res_write res w = res\<lparr>headersSent := True, body := body res @ [Record w]\<rparr>"

definition res_json :: "json \<Rightarrow> json \<Rightarrow> response \<Rightarrow> response" where
  "res_json st b res = res\<lparr>headersSent := True, body := body res @ [JsonBody st b], ended := True\<rparr>"

definition res_end :: "response \<Rightarrow> response" where
  "res_end res = res\<lparr>headersSent := True, ended := True\<rparr>"

text \<open>
  What the \<open>catch\<close> block reads of the error it caught: \<open>error.response?.status\<close>,
  \<open>error.response?.data\<close> and \<open>error.message\<close>. The data of an upstream error response
  is a decoded JSON value, or, when the request asked for a stream (\<open>responseType\<close> is
  \<open>'stream'\<close>), the upstream response stream itself: an object with circular references,
  on which \<open>JSON.stringify\<close> throws.
\<close>

datatype err_data = JsonData json | StreamData

record caught =
  response_status :: "nat option"
  response_data :: "err_data option"
  message :: "json option"

text \<open>Line 256: \<open>error.response?.status || 500\<close>.\<close>

definition status_of :: "caught \<Rightarrow> nat" where
  "status_of err = (case response_status err of None \<Rightarrow> 500 | Some s \<Rightarrow> if s = 0 then 500 else s)"

text \<open>Line 257: \<open>error.response?.data || error.message\<close>.\<close>

definition detail_of :: "caught \<Rightarrow> err_data option" where
  "detail_of err =
     (case response_data err of
        None \<Rightarrow> map_option JsonData (message err)
      | Some StreamData \<Rightarrow> Some StreamData
      | Some (JsonData d) \<Rightarrow>
          if truthy d then Some (JsonData d) else map_option JsonData (message err))"

text \<open>The detail when it is a JSON value.\<close>

definition json_detail :: "caught \<Rightarrow> json option" where
  "json_detail err = (case detail_of err of Some (JsonData d) \<Rightarrow> Some d | _ \<Rightarrow> None)"

text \<open>\<open>typeof detail === 'object'\<close> for a JSON value or undefined.\<close>

definition is_object :: "json option \<Rightarrow> bool" where
  "is_object v =
     (case v of Some JNull \<Rightarrow> True | Some (JArr xs) \<Rightarrow> True | Some (JObj kvs) \<Rightarrow> True | _ \<Rightarrow> False)"

text \<open>Lines 262-266: the JSON error object, for a status and a detail that is a JSON value or
  undefined; \<open>JSON.stringify\<close> on a JSON value is a parameter.\<close>

definition error_body :: "(json \<Rightarrow> ustring) \<Rightarrow> json \<Rightarrow> json option \<Rightarrow> json" where
  "error_body stringify status detail =
     JObj [(lit ''error'',
              JObj [(lit ''message'',
                       if is_object detail then JStr (stringify (nullish detail))
                       else or_default detail (JStr (lit ''Internal server error''))),
                    (lit ''type'', JStr (lit ''proxy_error'')),
                    (lit ''code'', status)])]"

text \<open>
  Lines 255-269, the \<open>catch\<close> block. Line 258 logs the detail and serializes it when it is
  an object, before the guard on \<open>res.headersSent\<close>: when the detail is the upstream stream
  the serialization throws inside the \<open>catch\<close> block, which is \<open>Inl\<close>: nothing after line
  258 runs and the response is left as it was, neither written to nor ended.
\<close>

definition catch_block :: "(json \<Rightarrow> ustring) \<Rightarrow> caught \<Rightarrow> response \<Rightarrow> js_error + response" where
  "catch_block stringify err res =
     (let status = JNum (decimal (status_of err))
      in case detail_of err of
           Some StreamData \<Rightarrow> Inl TypeError
         | Some (JsonData d) \<Rightarrow>
             Inr (if \<not> headersSent res
                  then res_json status (error_body stringify status (Some d)) res else res)
         | None \<Rightarrow>
             Inr (if \<not> headersSent res
                  then res_json status (error_body stringify status None) res else res))"

text \<open>
  What the upstream call does: it fails, or something before it throws (the error is caught
  by the \<open>catch\<close> block with no response method called yet); it answers with a stream
  that delivers chunks and then ends or raises an error; or it answers with a complete
  response. A thrown TypeError has no \<open>response\<close>; its message is the runtime's.
\<close>

datatype upstream =
    Failed caught
  | Streaming "bytes list" bool
  | Complete json

definition thrown :: "ustring \<Rightarrow> caught" where
  "thrown msg = \<lparr>response_status = None, response_data = None, message = Some (JStr msg)\<rparr>"

text \<open>
  Lines 84-270: the handler of one request. In the streaming branch the \<open>data\<close> events
  write the rewriter's records, and both the \<open>end\<close> and the \<open>error\<close> event end the
  response (lines 219-223). The result is the response as the handler leaves it, or \<open>Inl\<close>
  when the \<open>catch\<close> block itself throws: then nothing has been sent and nothing will be.
\<close>

definition chat_completions ::
  "env \<Rightarrow> (json \<Rightarrow> ustring) \<Rightarrow> ustring \<Rightarrow> bool \<Rightarrow> upstream \<Rightarrow> js_error + response" where
  "chat_completions e stringify type_error_message key_set up =
     (if \<not> key_set then
        Inr (res_json (JNum (lit ''500''))
               (JObj [(lit ''error'',
                    JObj [(lit ''message'', JStr (lit ''NIM_API_KEY environment variable not set'')),
                          (lit ''type'', JStr (lit ''server_error''))])])
               new_response)
      else
        (case up of
           Failed err \<Rightarrow> catch_block stringify err new_response
         | Streaming chunks ended_normally \<Rightarrow>
             Inr (res_end (foldl res_write new_response (rewrite_stream e chunks)))
         | Complete data \<Rightarrow>
             (case complete_body e data of
                Inl err \<Rightarrow> catch_block stringify (thrown type_error_message) new_response
              | Inr b \<Rightarrow> Inr (res_json (JNum (lit ''200'')) b new_response))))"

text \<open>
  An upstream call refused with status 401: as a request that did not ask for a stream
  catches it, the data the decoded error body; and as a request that asked for a stream
  catches it, the data the response stream.
\<close>

definition unauthorized :: caught where
  "unauthorized =
     \<lparr>response_status = Some 401,
      response_data = Some (JsonData (JObj [(lit ''detail'', JStr (lit ''Unauthorized''))])),
      message = Some (JStr (lit ''Request failed with status code 401''))\<rparr>"

definition unauthorized_stream :: caught where
  "unauthorized_stream =
     \<lparr>response_status = Some 401, response_data = Some StreamData,
      message = Some (JStr (lit ''Request failed with status code 401''))\<rparr>"

text \<open>Whether a response carries a record of the stream, and whether it carries a JSON body
  with an \<open>error\<close> member.\<close>

fun is_record :: "sent \<Rightarrow> bool" where
  "is_record (Record w) = True"
| "is_record (JsonBody st b) = False"

fun is_error_body :: "sent \<Rightarrow> bool" where
  "is_error_body (Record w) = False"
| "is_error_body (JsonBody st b) = (get_prop b (lit ''error'') \<noteq> None)"

text \<open>A choice of a complete response, with the message fields \<open>m\<close>.\<close>

definition answer_choice :: "(ustring \<times> json) list \<Rightarrow> json" where
  "answer_choice m =
     JObj [(lit ''index'', JNum (lit ''0'')), (lit ''message'', JObj m),
           (lit ''finish_reason'', JStr (lit ''stop''))]"

section \<open>Observations on frames and on what was written\<close>

text \<open>The \<open>content\<close> and the \<open>reasoning_content\<close> of a frame's first choice's delta
  (\<open>None\<close>: no such field).\<close>

definition delta_content :: "json \<Rightarrow> json option" where
  "delta_content d =
     (case first_delta d of Inr (Some delta) \<Rightarrow> get_prop delta (lit ''content'') | _ \<Rightarrow> None)"

definition delta_reasoning :: "json \<Rightarrow> json option" where
  "delta_reasoning d =
     (case first_delta d of
        Inr (Some delta) \<Rightarrow> get_prop delta (lit ''reasoning_content'')
      | _ \<Rightarrow> None)"

text \<open>A frame as the upstream streams it, with one choice whose delta has the fields \<open>d\<close>.\<close>

definition chunk_frame :: "(ustring \<times> json) list \<Rightarrow> json" where
  "chunk_frame d =
     JObj [(lit ''id'', JStr (lit ''cmpl-1'')),
           (lit ''choices'',
              JArr [JObj [(lit ''index'', JNum (lit ''0'')), (lit ''delta'', JObj d),
                          (lit ''finish_reason'', JNull)]])]"

text \<open>The content of a frame as text: the string in the first choice's delta, or the empty
  string when there is none.\<close>

definition content_text :: "json \<Rightarrow> ustring" where
  "content_text d = (case delta_content d of Some (JStr s) \<Rightarrow> s | _ \<Rightarrow> [])"

text \<open>The frames among the records written.\<close>

fun out_frames :: "wr list \<Rightarrow> json list" where
  "out_frames [] = []"
| "out_frames (DataRec d # ws) = d # out_frames ws"
| "out_frames (Raw s # ws) = out_frames ws"

text \<open>The frame a line carries: the line is a data record, not the terminator, and its payload
  decodes to a value other than \<open>null\<close>.\<close>

definition decode_line :: "env \<Rightarrow> ustring \<Rightarrow> json option" where
  "decode_line e line =
     (let trimmed = trim line in
      if trimmed = [] \<or> trimmed = lit ''data: [DONE]'' \<or> \<not> prefix (lit ''data: '') trimmed then None
      else (case JSON_parse e (drop 6 trimmed) of
              Inl err \<Rightarrow> None
            | Inr data \<Rightarrow> if data = JNull then None else Some data))"

text \<open>The frames of a sequence of lines, in order.\<close>

definition in_frames :: "env \<Rightarrow> ustring list \<Rightarrow> json list" where
  "in_frames e ls = List.map_filter (decode_line e) ls"

text \<open>What the display-disabled branch leaves in \<open>content\<close> of a delta object: the incoming
  value, or the empty string when it is null or absent.\<close>

definition passed_content :: "json \<Rightarrow> json option" where
  "passed_content d =
     (case first_delta d of
        Inr (Some (JObj kvs)) \<Rightarrow>
          Some (case map_of kvs (lit ''content'') of
                  None \<Rightarrow> JStr []
                | Some c \<Rightarrow> if c = JNull then JStr [] else c)
      | _ \<Rightarrow> None)"

text \<open>The two frames of the scenarios of section 8 of the specification, as payload text and as
  decoded values.\<close>

definition payload_R :: ustring where
  \<open>payload_R = lit ''{"choices":[{"delta":{"reasoning_content":"Let me think"}}]}''\<close>

definition payload_C :: ustring where
  \<open>payload_C = lit ''{"choices":[{"delta":{"content":"The answer is 4"}}]}''\<close>

definition frame_R :: json where
  "frame_R = JObj [(lit ''choices'', JArr [JObj [(lit ''delta'',
                JObj [(lit ''reasoning_content'', JStr (lit ''Let me think''))])]])]"

definition frame_C :: json where
  "frame_C = JObj [(lit ''choices'', JArr [JObj [(lit ''delta'',
                JObj [(lit ''content'', JStr (lit ''The answer is 4''))])]])]"

text \<open>
  A data record whose content is the character U+00E9, which UTF-8 encodes in the two bytes
  C3 A9: its bytes up to and including C3, and the rest; its payload and frame; and the
  payload and frame with two U+FFFD in its place.
\<close>

definition ascii :: "string \<Rightarrow> bytes" where
  "ascii s = map of_char s"

definition record_head :: bytes where
  \<open>record_head = ascii ''data: {"choices":[{"delta":{"content":"'' @ [0xC3]\<close>

definition record_tail :: bytes where
  \<open>record_tail = [0xA9] @ ascii ''"}}]}'' @ [0x0A, 0x0A]\<close>

definition payload_E :: ustring where
  \<open>payload_E = lit ''{"choices":[{"delta":{"content":"'' @ [0xE9] @ lit ''"}}]}''\<close>

definition payload_X :: ustring where
  \<open>payload_X = lit ''{"choices":[{"delta":{"content":"'' @ [0xFFFD, 0xFFFD] @ lit ''"}}]}''\<close>

definition frame_E :: json where
  "frame_E = JObj [(lit ''choices'', JArr [JObj [(lit ''delta'',
                JObj [(lit ''content'', JStr [0xE9])])]])]"

definition frame_X :: json where
  "frame_X = JObj [(lit ''choices'', JArr [JObj [(lit ''delta'',
                JObj [(lit ''content'', JStr [0xFFFD, 0xFFFD])])]])]"

text \<open>
  A frame whose content is an object with a property \<open>toString\<close>, so that its string
  conversion throws; and a frame with two choices, the second with a reasoning field.
\<close>

definition payload_T :: ustring where
  \<open>payload_T = lit ''{"choices":[{"delta":{"content":{"toString":1}}}]}''\<close>

definition frame_T :: json where
  "frame_T = JObj [(lit ''choices'', JArr [JObj [(lit ''delta'',
                JObj [(lit ''content'', JObj [(lit ''toString'', JNum (lit ''1''))])])]])]"

definition payload_2 :: ustring where
  \<open>payload_2 = lit ''{"choices":[{"index":0,"delta":{"content":"a"}},{"index":1,"delta":{"reasoning_content":"r"}}]}''\<close>

definition two_choices :: json where
  "two_choices =
     JObj [(lit ''choices'',
        JArr [JObj [(lit ''index'', JNum (lit ''0'')),
                    (lit ''delta'', JObj [(lit ''content'', JStr (lit ''a''))])],
              JObj [(lit ''index'', JNum (lit ''1'')),
                    (lit ''delta'', JObj [(lit ''reasoning_content'', JStr (lit ''r''))])]])]"

text \<open>
  An environment for evaluating the rewriter at these inputs: its parser decodes the six
  payloads above as \<open>JSON.parse\<close> does, and answers every other text with an error.
\<close>

definition scenario_parse :: "ustring \<Rightarrow> js_error + json" where
  "scenario_parse s =
     (if s = payload_R then Inr frame_R
      else if s = payload_C then Inr frame_C
      else if s = payload_E then Inr frame_E
      else if s = payload_X then Inr frame_X
      else if s = payload_T then Inr frame_T
      else if s = payload_2 then Inr two_choices
      else Inl SyntaxError)"

definition scenario_env :: "bool \<Rightarrow> env" where
  "scenario_env showReasoning =
     \<lparr>SHOW_REASONING = showReasoning, model = Some (JStr (lit ''gpt-4'')),
      JSON_parse = scenario_parse, now = 1700000000123\<rparr>"

text \<open>Whether a key occurs anywhere in a value; and the choices of a frame after the first.\<close>

definition rest_choices :: "json \<Rightarrow> json list" where
  "rest_choices d =
     (case get_prop d (lit ''choices'') of Some (JArr (x # xs)) \<Rightarrow> xs | _ \<Rightarrow> [])"

fun has_key :: "ustring \<Rightarrow> json \<Rightarrow> bool" where
  "has_key k (JObj kvs) = (list_ex (\<lambda>kv. fst kv = k) kvs \<or> list_ex (has_key k) (map snd kvs))"
| "has_key k (JArr xs) = list_ex (has_key k) xs"
| "has_key k _ = False"

text \<open>The number of positions of a text at which a token starts.\<close>

fun occurrences :: "ustring \<Rightarrow> ustring \<Rightarrow> nat" where
  "occurrences p [] = 0"
| "occurrences p (c # s) = (if prefix p (c # s) then 1 else 0) + occurrences p s"

text \<open>The concatenated content of the records written.\<close>

definition out_text :: "wr list \<Rightarrow> ustring" where
  "out_text ws = concat (map content_text (out_frames ws))"

text \<open>The marker literals of the source: the opening marker (line 188), the closing marker of
  the splicer and of the non-streaming path (lines 196, 232), and the text of the record
  the terminator branch synthesizes (line 159).\<close>

definition open_marker :: ustring where
  "open_marker = lit ''<think>'' @ [NL]"

definition close_marker :: ustring where
  "close_marker = [NL] @ lit ''</think>'' @ [NL, NL]"

definition final_marker :: ustring where
  "final_marker = lit ''</think>'' @ [NL, NL]"

text \<open>A text field as the data model types it: a string, null or absent.\<close>

definition typed_text :: "json option \<Rightarrow> bool" where
  "typed_text v =
     (case v of
        None \<Rightarrow> True
      | Some JNull \<Rightarrow> True
      | Some (JStr s) \<Rightarrow> True
      | Some _ \<Rightarrow> False)"

text \<open>A frame that carries no reasoning field, and whose content is typed so.\<close>

definition content_only :: "json \<Rightarrow> bool" where
  "content_only d = (delta_reasoning d = None \<and> typed_text (delta_content d))"

text \<open>The text of a field typed so, and the string lines 184-200 build from two texts.\<close>

definition text_of :: "json option \<Rightarrow> ustring" where
  "text_of v = (case v of Some (JStr s) \<Rightarrow> s | _ \<Rightarrow> [])"

definition spliced :: "bool \<Rightarrow> ustring \<Rightarrow> ustring \<Rightarrow> ustring" where
  "spliced b r c =
     (if r \<noteq> [] then (if \<not> b then open_marker else []) @ r else []) @
     (if c \<noteq> [] then (if b \<or> r \<noteq> [] then close_marker else []) @ c else [])"

text \<open>A frame whose reasoning and content are typed as the data model has them.\<close>

definition typed_frame :: "json \<Rightarrow> bool" where
  "typed_frame d = (typed_text (delta_reasoning d) \<and> typed_text (delta_content d))"

text \<open>
  The content of a written record as the specification describes it, in pieces: the markers
  the rewriter inserts, and the incoming texts. Section 4.3, step 2, in its words: if
  reasoning text is non-empty: if the span is not open, append the opening marker and set
  span-open; append the reasoning text. If content text is present and non-empty: if the
  span is open, append the closing marker and set span-closed; append the content text.
  Section 4.4: on the terminator, if the span is still open, one more record whose content
  is the closing marker.
\<close>

datatype piece = Opening | Closing | Synthesized | Text ustring

fun render :: "piece \<Rightarrow> ustring" where
  "render Opening = open_marker"
| "render Closing = close_marker"
| "render Synthesized = final_marker"
| "render (Text t) = t"

definition frame_pieces :: "bool \<Rightarrow> ustring \<Rightarrow> ustring \<Rightarrow> piece list \<times> bool" where
  "frame_pieces spanOpen r c =
     (let (p1, open1) =
            (if r \<noteq> [] then ((if \<not> spanOpen then [Opening] else []) @ [Text r], True)
             else ([], spanOpen));
          (p2, open2) =
            (if c \<noteq> [] then ((if open1 then [Closing] else []) @ [Text c], False)
             else ([], open1))
      in (p1 @ p2, open2))"

text \<open>The pieces of the records written for one line and for a sequence of lines, one list
  of pieces per record, with the state of the span.\<close>

definition line_pieces :: "env \<Rightarrow> bool \<Rightarrow> ustring \<Rightarrow> piece list list \<times> bool" where
  "line_pieces e spanOpen line =
     (case decode_line e line of
        Some d \<Rightarrow>
          (let (ps, open') = frame_pieces spanOpen (text_of (delta_reasoning d))
                               (text_of (delta_content d))
           in ([ps], open'))
      | None \<Rightarrow>
          if trim line = lit ''data: [DONE]'' \<and> spanOpen then ([[Synthesized]], False)
          else ([], spanOpen))"

fun stream_pieces :: "env \<Rightarrow> bool \<Rightarrow> ustring list \<Rightarrow> piece list list \<times> bool" where
  "stream_pieces e spanOpen [] = ([], spanOpen)"
| "stream_pieces e spanOpen (l # ls) =
     (let (p1, open1) = line_pieces e spanOpen l;
          (p2, open2) = stream_pieces e open1 ls
      in (p1 @ p2, open2))"

section \<open>Properties of the frame splicer\<close>

lemma get_prop_Some_obj: "get_prop j k = Some v \<Longrightarrow> \<exists>kvs. j = JObj kvs \<and> map_of kvs k = Some v"
  by (cases j) simp_all

lemma not_obj_props: "\<forall>kvs. j \<noteq> JObj kvs \<Longrightarrow> get_prop j k = None"
  by (cases j) simp_all

lemma index0_set_index0: "index0 ch = Some (JObj ckvs) \<Longrightarrow> index0 (set_index0 v ch) = Some v"
  by (cases ch) (auto simp: update_conv' split: list.splits)

lemma set_index0_not_null: "index0 ch = Some (JObj ckvs) \<Longrightarrow> set_index0 v ch \<noteq> JNull"
  by (cases ch) (auto split: list.splits)

text \<open>A delta that was read sits at \<open>data.choices[0].delta\<close> of an object \<open>data\<close>.\<close>

lemma first_delta_path:
  assumes "first_delta data = Inr (Some delta)"
  obtains kvs ch ckvs where "data = JObj kvs" "map_of kvs (lit ''choices'') = Some ch"
    "index0 ch = Some (JObj ckvs)" "map_of ckvs (lit ''delta'') = Some delta"
proof -
  from assms have nn: "data \<noteq> JNull" by (auto simp: first_delta_def split: if_splits)
  from assms nn obtain ch where ch: "get_prop data (lit ''choices'') = Some ch" "ch \<noteq> JNull"
    by (auto simp: first_delta_def split: option.splits if_splits)
  from assms nn ch obtain choice where c: "index0 ch = Some choice" "choice \<noteq> JNull"
      "get_prop choice (lit ''delta'') = Some delta"
    by (auto simp: first_delta_def split: option.splits if_splits)
  from ch obtain kvs where "data = JObj kvs" "map_of kvs (lit ''choices'') = Some ch"
    using get_prop_Some_obj by blast
  moreover from c obtain ckvs where "choice = JObj ckvs" "map_of ckvs (lit ''delta'') = Some delta"
    using get_prop_Some_obj by blast
  ultimately show ?thesis using c that by blast
qed

text \<open>Writing a delta back and reading it again gives that delta.\<close>

lemma first_delta_put_delta:
  assumes "first_delta data = Inr (Some delta)"
  shows "first_delta (put_delta d' data) = Inr (Some d')"
proof -
  from assms obtain kvs ch ckvs where p: "data = JObj kvs" "map_of kvs (lit ''choices'') = Some ch"
    "index0 ch = Some (JObj ckvs)" "map_of ckvs (lit ''delta'') = Some delta"
    by (rule first_delta_path)
  have "put_delta d' data =
          JObj (AList.update (lit ''choices'')
                  (set_index0 (JObj (AList.update (lit ''delta'') d' ckvs)) ch) kvs)"
    using p by (simp add: put_delta_def)
  then show ?thesis
    using p by (simp add: first_delta_def update_conv' index0_set_index0 set_index0_not_null)
qed

lemma delta_content_put_delta:
  "first_delta data = Inr (Some delta) \<Longrightarrow>
     delta_content (put_delta d' data) = get_prop d' (lit ''content'')"
  by (simp add: delta_content_def first_delta_put_delta)

lemma delta_reasoning_put_delta:
  "first_delta data = Inr (Some delta) \<Longrightarrow>
     delta_reasoning (put_delta d' data) = get_prop d' (lit ''reasoning_content'')"
  by (simp add: delta_reasoning_def first_delta_put_delta)

lemma get_prop_delete_same [simp]: "get_prop (delete_prop k j) k = None"
  by (cases j) (simp_all add: delete_conv')

lemma get_prop_delete_other: "k' \<noteq> k \<Longrightarrow> get_prop (delete_prop k j) k' = get_prop j k'"
  by (cases j) (simp_all add: delete_conv')

lemma get_prop_set_other: "k' \<noteq> k \<Longrightarrow> get_prop (set_prop k v j) k' = get_prop j k'"
  by (cases j) (simp_all add: update_conv')

lemma rc_neq_content:
  "lit ''reasoning_content'' \<noteq> lit ''content''" "lit ''content'' \<noteq> lit ''reasoning_content''"
  by (simp_all add: lit_def)

lemma build_inject_nulls: "build_inject b JNull JNull = (Inr [], b)"
  by (simp add: build_inject_def)

lemma first_delta_chunk_frame: "first_delta (chunk_frame d) = Inr (Some (JObj d))"
  by (simp add: first_delta_def chunk_frame_def lit_def)

text \<open>
  C2. With reasoning display enabled, for every frame with a delta: the outgoing delta's
  \<open>content\<close> is the built string when that string is not empty; it is the empty string when
  the built string is empty and the incoming content was the empty string; and the field is
  absent (not null) when the built string is empty and the incoming content was absent or
  null.
\<close>

theorem splice_content_rule:
  assumes fd: "first_delta data = Inr (Some delta)" and tr: "truthy delta"
    and bi: "build_inject b (nullish (get_prop delta (lit ''reasoning_content'')))
               (nullish (get_prop delta (lit ''content''))) = (Inr inject, b')"
  shows "\<exists>data'. splice_frame True b data = (Inr data', b') \<and>
          (inject \<noteq> [] \<longrightarrow> delta_content data' = Some (JStr inject)) \<and>
          (inject = [] \<and> get_prop delta (lit ''content'') = Some (JStr []) \<longrightarrow>
             delta_content data' = Some (JStr [])) \<and>
          (inject = [] \<and> (get_prop delta (lit ''content'') = None \<or>
                           get_prop delta (lit ''content'') = Some JNull) \<longrightarrow>
             delta_content data' = None)"
proof -
  define c where "c = nullish (get_prop delta (lit ''content''))"
  define d1 where "d1 = delete_prop (lit ''reasoning_content'') delta"
  define d2 where "d2 = (if content_value inject c = JNull then delete_prop (lit ''content'') d1
                         else set_prop (lit ''content'') (content_value inject c) d1)"
  have sp: "splice_frame True b data = (Inr (put_delta d2 data), b')"
    using fd tr bi by (simp add: splice_frame_def c_def d1_def d2_def Let_def)
  have dc: "delta_content (put_delta d2 data) = get_prop d2 (lit ''content'')"
    using fd by (rule delta_content_put_delta)
  have obj: "\<exists>kvs. delta = JObj kvs" if "inject \<noteq> [] \<or> get_prop delta (lit ''content'') \<noteq> None"
  proof (rule ccontr)
    assume "\<not> (\<exists>kvs. delta = JObj kvs)"
    then have "get_prop delta (lit ''reasoning_content'') = None"
        "get_prop delta (lit ''content'') = None"
      by (simp_all add: not_obj_props)
    with bi that show False by (simp add: nullish_def build_inject_nulls)
  qed
  have 1: "get_prop d2 (lit ''content'') = Some (JStr inject)" if "inject \<noteq> []"
  proof -
    from that obj obtain kvs where "delta = JObj kvs" by blast
    with that show ?thesis by (simp add: d2_def d1_def content_value_def update_conv')
  qed
  have 2: "get_prop d2 (lit ''content'') = Some (JStr [])"
    if "inject = []" "get_prop delta (lit ''content'') = Some (JStr [])"
  proof -
    from that obj obtain kvs where "delta = JObj kvs" by auto
    with that show ?thesis
      by (simp add: d2_def d1_def content_value_def update_conv' c_def nullish_def)
  qed
  have 3: "get_prop d2 (lit ''content'') = None"
    if "inject = []"
      "get_prop delta (lit ''content'') = None \<or> get_prop delta (lit ''content'') = Some JNull"
    using that by (auto simp: d2_def content_value_def c_def nullish_def)
  show ?thesis using sp dc 1 2 3 by auto
qed

text \<open>
  The rule at three frames: reasoning and content in one frame while the span is closed; an
  explicit empty content; and a delta with a role and a null content while the span is open.
\<close>

theorem splice_content_rule_witness:
  "(\<exists>data'. splice_frame True False
              (chunk_frame [(lit ''reasoning_content'', JStr (lit ''hm'')),
                            (lit ''content'', JStr (lit ''ok''))]) = (Inr data', False) \<and>
            delta_content data' =
              Some (JStr (lit ''<think>'' @ [NL] @ lit ''hm'' @ [NL] @ lit ''</think>''
                          @ [NL, NL] @ lit ''ok''))) \<and>
   (\<exists>data'. splice_frame True False (chunk_frame [(lit ''content'', JStr [])]) = (Inr data', False) \<and>
            delta_content data' = Some (JStr [])) \<and>
   (\<exists>data'. splice_frame True True
              (chunk_frame [(lit ''role'', JStr (lit ''assistant'')), (lit ''content'', JNull)])
              = (Inr data', True) \<and>
            delta_content data' = None)"
proof -
  have a: "\<exists>data'. splice_frame True False
              (chunk_frame [(lit ''reasoning_content'', JStr (lit ''hm'')),
                            (lit ''content'', JStr (lit ''ok''))]) = (Inr data', False) \<and>
            delta_content data' =
              Some (JStr (lit ''<think>'' @ [NL] @ lit ''hm'' @ [NL] @ lit ''</think>''
                          @ [NL, NL] @ lit ''ok''))"
    using splice_content_rule [OF first_delta_chunk_frame
        [of "[(lit ''reasoning_content'', JStr (lit ''hm'')), (lit ''content'', JStr (lit ''ok''))]"],
        of False
        "lit ''<think>'' @ [NL] @ lit ''hm'' @ [NL] @ lit ''</think>'' @ [NL, NL] @ lit ''ok''" False]
    by (simp add: build_inject_def nullish_def lit_def)
  have b: "\<exists>data'. splice_frame True False (chunk_frame [(lit ''content'', JStr [])])
                     = (Inr data', False) \<and> delta_content data' = Some (JStr [])"
    using splice_content_rule [OF first_delta_chunk_frame [of "[(lit ''content'', JStr [])]"],
        of False "[]" False]
    by (simp add: build_inject_def nullish_def lit_def)
  have c: "\<exists>data'. splice_frame True True
              (chunk_frame [(lit ''role'', JStr (lit ''assistant'')), (lit ''content'', JNull)])
              = (Inr data', True) \<and> delta_content data' = None"
    using splice_content_rule [OF first_delta_chunk_frame
        [of "[(lit ''role'', JStr (lit ''assistant'')), (lit ''content'', JNull)]"],
        of True "[]" True]
    by (simp add: build_inject_def nullish_def lit_def)
  from a b c show ?thesis by blast
qed

section \<open>Lines and streams\<close>

lemma out_frames_append [simp]: "out_frames (a @ b) = out_frames a @ out_frames b"
  by (induction a rule: out_frames.induct) simp_all

lemma decode_line_not_null: "decode_line e line = Some d \<Longrightarrow> d \<noteq> JNull"
  by (auto simp: decode_line_def Let_def split: if_splits sum.splits)

lemma handle_line_decoded:
  assumes "decode_line e line = Some d"
  shows "handle_line e b line =
           (case splice_frame (SHOW_REASONING e) b d of
              (Inl err, b') \<Rightarrow> ([Raw (trim line @ [NL])], b')
            | (Inr d', b') \<Rightarrow> ([DataRec d'], b'))"
  using assms
  by (auto simp: decode_line_def handle_line_def Let_def split: if_splits sum.splits)

lemma splice_null: "splice_frame s b JNull = (Inl TypeError, b)"
  by (simp add: splice_frame_def first_delta_def)

lemma handle_line_undecoded:
  assumes "decode_line e line = None"
  shows "handle_line e b line =
           (if trim line = [] then ([], b)
            else if trim line = lit ''data: [DONE]'' then
              (if b \<and> SHOW_REASONING e then
                 ([DataRec (buildDeltaChunk (now e) (model e) (lit ''</think>'' @ [NL, NL])),
                   Raw (lit ''data: [DONE]'' @ [NL, NL])], False)
               else ([Raw (lit ''data: [DONE]'' @ [NL, NL])], b))
            else ([Raw (trim line @ [NL])], b))"
  using assms
  by (auto simp: decode_line_def handle_line_def Let_def splice_null split: if_splits sum.splits)

lemma handle_lines_append:
  "handle_lines e b (xs @ ys) =
     (let (o1, b1) = handle_lines e b xs; (o2, b2) = handle_lines e b1 ys in (o1 @ o2, b2))"
  by (induction xs arbitrary: b) (simp_all add: split_beta)

lemma splice_hide:
  assumes "d \<noteq> JNull"
  shows "\<exists>d'. splice_frame False b d = (Inr d', b) \<and> delta_content d' = passed_content d
            \<and> delta_reasoning d' = None"
proof (cases "first_delta d")
  case (Inl err)
  with assms show ?thesis by (simp add: first_delta_def)
next
  case (Inr dv)
  show ?thesis
  proof (cases dv)
    case None
    with Inr show ?thesis
      by (simp add: splice_frame_def delta_content_def delta_reasoning_def passed_content_def)
  next
    case (Some delta)
    show ?thesis
    proof (cases "truthy delta")
      case False
      then have "\<forall>kvs. delta \<noteq> JObj kvs" by auto
      with Inr Some False show ?thesis
        by (cases delta) (simp_all add: splice_frame_def delta_content_def delta_reasoning_def passed_content_def)
    next
      case True
      have fd: "first_delta d = Inr (Some delta)" using Inr Some by simp
      show ?thesis
      proof (cases delta)
        case (JObj kvs)
        then show ?thesis using fd
          by (auto simp: splice_frame_def Let_def delta_content_put_delta [OF fd] delta_reasoning_put_delta [OF fd]
              passed_content_def nullish_def update_conv' delete_conv' rc_neq_content split: option.splits)
      qed (use fd True in \<open>simp_all add: splice_frame_def Let_def delta_content_put_delta [OF fd]
              delta_reasoning_put_delta [OF fd] passed_content_def nullish_def\<close>)
    qed
  qed
qed

lemma hide_line:
  assumes "\<not> SHOW_REASONING e"
  shows "snd (handle_line e False line) = False \<and>
         map delta_content (out_frames (fst (handle_line e False line))) =
           map passed_content (case decode_line e line of None \<Rightarrow> [] | Some d \<Rightarrow> [d]) \<and>
         list_all (\<lambda>d. delta_reasoning d = None) (out_frames (fst (handle_line e False line)))"
proof (cases "decode_line e line")
  case None
  then show ?thesis using assms by (simp add: handle_line_undecoded)
next
  case (Some d)
  then have "d \<noteq> JNull" by (rule decode_line_not_null)
  from splice_hide [OF this, of False] obtain d' where
    "splice_frame False False d = (Inr d', False)" "delta_content d' = passed_content d"
    "delta_reasoning d' = None" by blast
  with Some assms show ?thesis by (simp add: handle_line_decoded)
qed

lemma in_frames_Cons:
  "in_frames e (l # ls) = (case decode_line e l of None \<Rightarrow> [] | Some d \<Rightarrow> [d]) @ in_frames e ls"
  by (simp add: in_frames_def split: option.splits)

lemma hide_lines:
  assumes "\<not> SHOW_REASONING e"
  shows "snd (handle_lines e False ls) = False \<and>
         map delta_content (out_frames (fst (handle_lines e False ls))) =
           map passed_content (in_frames e ls) \<and>
         list_all (\<lambda>d. delta_reasoning d = None) (out_frames (fst (handle_lines e False ls)))"
proof (induction ls)
  case Nil
  show ?case by (simp add: in_frames_def)
next
  case (Cons l ls)
  from hide_line [OF assms, of l] Cons show ?case
    by (simp add: split_beta in_frames_Cons)
qed

section \<open>The spliced string and the pieces of a record\<close>

lemma build_inject_typed:
  assumes "typed_text rv" "typed_text cv"
  shows "build_inject b (nullish rv) (nullish cv) =
           (Inr (spliced b (text_of rv) (text_of cv)),
            (if text_of cv \<noteq> [] then False else b \<or> text_of rv \<noteq> []))"
  using assms
  by (auto simp: typed_text_def build_inject_def nullish_def text_of_def spliced_def
      open_marker_def close_marker_def split: option.splits json.splits)

lemma splice_show_obj:
  assumes fd: "first_delta d = Inr (Some (JObj kvs))"
    and ty: "typed_text (delta_reasoning d)" "typed_text (delta_content d)"
  shows "\<exists>d'. splice_frame True b d =
            (Inr d', (if text_of (delta_content d) \<noteq> [] then False
                      else b \<or> text_of (delta_reasoning d) \<noteq> [])) \<and>
          content_text d' = spliced b (text_of (delta_reasoning d)) (text_of (delta_content d))"
proof -
  have rv: "get_prop (JObj kvs) (lit ''reasoning_content'') = delta_reasoning d"
    and cv: "get_prop (JObj kvs) (lit ''content'') = delta_content d"
    using fd by (simp_all add: delta_reasoning_def delta_content_def)
  let ?inj = "spliced b (text_of (delta_reasoning d)) (text_of (delta_content d))"
  have bi: "build_inject b (nullish (get_prop (JObj kvs) (lit ''reasoning_content'')))
              (nullish (get_prop (JObj kvs) (lit ''content''))) =
            (Inr ?inj, (if text_of (delta_content d) \<noteq> [] then False
                      else b \<or> text_of (delta_reasoning d) \<noteq> []))"
    unfolding rv cv by (rule build_inject_typed [OF ty])
  show ?thesis
    using fd bi
    apply (simp add: splice_frame_def Let_def del: get_prop.simps)
    by (simp add: content_text_def delta_content_put_delta [OF fd] content_value_def update_conv' delete_conv')
qed

lemma splice_show_other:
  assumes "d \<noteq> JNull" "\<forall>kvs. first_delta d \<noteq> Inr (Some (JObj kvs))"
  shows "\<exists>d'. splice_frame True b d = (Inr d', b) \<and> content_text d' = []"
proof (cases "first_delta d")
  case (Inl err)
  with assms show ?thesis by (simp add: first_delta_def)
next
  case (Inr dv)
  show ?thesis
  proof (cases dv)
    case None
    with Inr show ?thesis by (simp add: splice_frame_def content_text_def delta_content_def)
  next
    case (Some delta)
    with Inr assms have no: "\<forall>kvs. delta \<noteq> JObj kvs" by auto
    have fd: "first_delta d = Inr (Some delta)" using Inr Some by simp
    from no have g: "get_prop delta k = None" for k by (rule not_obj_props)
    from no have s: "set_prop k v delta = delta" "delete_prop k delta = delta" for k v
      by (cases delta; simp)+
    have dc: "delta_content (put_delta delta d) = None"
      by (simp add: delta_content_put_delta [OF fd] g)
    have dc': "delta_content d = None"
      by (simp add: delta_content_def fd g)
    show ?thesis using fd
      by (simp add: splice_frame_def Let_def g s nullish_def build_inject_nulls content_value_def
          content_text_def dc dc')
  qed
qed
lemma out_text_append [simp]: "out_text (a @ b) = out_text a @ out_text b"
  by (simp add: out_text_def)

lemma content_text_final [simp]:
  "content_text (buildDeltaChunk t m c) = c"
  by (cases m) (simp_all add: content_text_def delta_content_def first_delta_def buildDeltaChunk_def lit_def)

lemma done_nonempty: "lit ''data: [DONE]'' \<noteq> []"
  by (simp add: lit_def)

lemma spliced_pieces:
  "spliced b r c = concat (map render (fst (frame_pieces b r c)))"
  by (simp add: spliced_def frame_pieces_def)

lemma frame_pieces_state:
  "snd (frame_pieces b r c) = (if c \<noteq> [] then False else b \<or> r \<noteq> [])"
  by (simp add: frame_pieces_def)

lemma frame_pieces_balance:
  "count_list (fst (frame_pieces b r c)) Opening + (if b then 1 else 0) =
     count_list (fst (frame_pieces b r c)) Closing + (if snd (frame_pieces b r c) then 1 else 0) \<and>
   count_list (fst (frame_pieces b r c)) Synthesized = 0"
  by (simp add: frame_pieces_def)

lemma frame_pieces_empty [simp]: "frame_pieces b [] [] = ([], b)"
  by (simp add: frame_pieces_def)

lemma untyped_texts_empty:
  assumes "\<forall>kvs. first_delta d \<noteq> Inr (Some (JObj kvs))"
  shows "text_of (delta_reasoning d) = []" "text_of (delta_content d) = []"
  using assms
  by (auto simp: text_of_def delta_reasoning_def delta_content_def dest: get_prop_Some_obj
      split: sum.splits option.splits json.splits)

lemma splice_typed:
  assumes nn: "d \<noteq> JNull" and ty: "typed_frame d"
  shows "\<exists>d'. splice_frame True b d =
              (Inr d', snd (frame_pieces b (text_of (delta_reasoning d)) (text_of (delta_content d)))) \<and>
            content_text d' =
              concat (map render (fst (frame_pieces b (text_of (delta_reasoning d))
                                         (text_of (delta_content d)))))"
proof (cases "\<exists>kvs. first_delta d = Inr (Some (JObj kvs))")
  case True
  then obtain kvs where fd: "first_delta d = Inr (Some (JObj kvs))" by blast
  from ty have t: "typed_text (delta_reasoning d)" "typed_text (delta_content d)"
    by (simp_all add: typed_frame_def)
  from splice_show_obj [OF fd t, of b] show ?thesis
    by (simp add: spliced_pieces frame_pieces_state)
next
  case False
  then have f: "\<forall>kvs. first_delta d \<noteq> Inr (Some (JObj kvs))" by simp
  from splice_show_other [OF nn f, of b] show ?thesis
    by (simp add: untyped_texts_empty [OF f])
qed

lemma final_text: "lit ''</think>'' @ [NL, NL] = final_marker"
  by (simp add: final_marker_def)

lemma line_refines:
  assumes sh: "SHOW_REASONING e" and ty: "list_all typed_frame (in_frames e [line])"
  shows "map content_text (out_frames (fst (handle_line e b line))) =
           map (\<lambda>ps. concat (map render ps)) (fst (line_pieces e b line)) \<and>
         snd (handle_line e b line) = snd (line_pieces e b line)"
proof (cases "decode_line e line")
  case None
  then show ?thesis using sh
    by (auto simp: handle_line_undecoded line_pieces_def final_text done_nonempty)
next
  case (Some d)
  then have nn: "d \<noteq> JNull" by (rule decode_line_not_null)
  from ty Some have "typed_frame d" by (simp add: in_frames_def)
  from splice_typed [OF nn this, of b] obtain d' where
    "splice_frame True b d =
       (Inr d', snd (frame_pieces b (text_of (delta_reasoning d)) (text_of (delta_content d))))"
    "content_text d' =
       concat (map render (fst (frame_pieces b (text_of (delta_reasoning d)) (text_of (delta_content d)))))"
    by blast
  with Some sh show ?thesis
    by (simp add: handle_line_decoded line_pieces_def split_beta)
qed

lemma line_pieces_balance:
  "count_list (concat (fst (line_pieces e b line))) Opening + (if b then 1 else 0) =
     count_list (concat (fst (line_pieces e b line))) Closing +
     count_list (concat (fst (line_pieces e b line))) Synthesized +
     (if snd (line_pieces e b line) then 1 else 0)"
proof (cases "decode_line e line")
  case None
  then show ?thesis by (simp add: line_pieces_def)
next
  case (Some d)
  with frame_pieces_balance [of b "text_of (delta_reasoning d)" "text_of (delta_content d)"]
  show ?thesis by (simp add: line_pieces_def split_beta)
qed

lemma stream_pieces_balance:
  "count_list (concat (fst (stream_pieces e b ls))) Opening + (if b then 1 else 0) =
     count_list (concat (fst (stream_pieces e b ls))) Closing +
     count_list (concat (fst (stream_pieces e b ls))) Synthesized +
     (if snd (stream_pieces e b ls) then 1 else 0)"
proof (induction ls arbitrary: b)
  case Nil
  show ?case by simp
next
  case (Cons l ls)
  from line_pieces_balance [of e b l] Cons [of "snd (line_pieces e b l)"] show ?case
    by (simp add: split_beta)
qed

lemma stream_refines:
  assumes sh: "SHOW_REASONING e" and ty: "list_all typed_frame (in_frames e ls)"
  shows "map content_text (out_frames (fst (handle_lines e b ls))) =
           map (\<lambda>ps. concat (map render ps)) (fst (stream_pieces e b ls)) \<and>
         snd (handle_lines e b ls) = snd (stream_pieces e b ls)"
  using ty
proof (induction ls arbitrary: b)
  case Nil
  show ?case by simp
next
  case (Cons l ls)
  from Cons.prems have p1: "list_all typed_frame (in_frames e [l])"
    and p2: "list_all typed_frame (in_frames e ls)"
    by (simp_all add: in_frames_Cons [of e l ls] in_frames_Cons [of e l "[]"]
        in_frames_def [of e "[]"])
  obtain o1 b1 where h1: "handle_line e b l = (o1, b1)" by (cases "handle_line e b l")
  obtain q1 c1 where l1: "line_pieces e b l = (q1, c1)" by (cases "line_pieces e b l")
  from line_refines [OF sh p1, of b] h1 l1 have
    1: "map content_text (out_frames o1) = map (\<lambda>ps. concat (map render ps)) q1" "c1 = b1"
    by simp_all
  obtain o2 b2 where h2: "handle_lines e b1 ls = (o2, b2)" by (cases "handle_lines e b1 ls")
  obtain q2 c2 where l2: "stream_pieces e b1 ls = (q2, c2)" by (cases "stream_pieces e b1 ls")
  from Cons.IH [OF p2, of b1] h2 l2 have
    2: "map content_text (out_frames o2) = map (\<lambda>ps. concat (map render ps)) q2" "c2 = b2"
    by simp_all
  show ?case using 1 2 by (simp add: h1 h2 l1 l2)
qed

section \<open>The terminator\<close>

lemma delta_content_final:
  "delta_content (buildDeltaChunk t m c) = Some (JStr c)"
  by (cases m) (simp_all add: delta_content_def first_delta_def buildDeltaChunk_def lit_def)

lemma decode_line_done: "trim line = lit ''data: [DONE]'' \<Longrightarrow> decode_line e line = None"
  by (simp add: decode_line_def)

lemma in_frames_append: "in_frames e (xs @ ys) = in_frames e xs @ in_frames e ys"
  by (induction xs) (simp_all add: in_frames_Cons, simp add: in_frames_def)

lemma typed_append_done:
  assumes tl: "trim line = lit ''data: [DONE]''"
  shows "in_frames e (ls @ [line]) = in_frames e ls"
  using decode_line_done [OF tl, of e]
  by (simp add: in_frames_append in_frames_Cons in_frames_def [of e "[]"])

text \<open>
  The terminator branch, with display enabled. When the terminator record is received while
  the span is open, one synthesized data record whose delta content is the closing tag
  followed by two line feeds is written, then the terminator, and the span is closed; so
  after a terminator record the span is closed, whatever came before it. For every sequence
  of lines whose frames are typed (reasoning and content each a string, null or absent),
  from either state of the span: the content of the records written is, record for record,
  what the specification describes, the incoming texts with the markers inserted; the markers
  opened are the markers closed, plus one if the span is left open; and once a terminator
  record has been handled every opening marker has its closing marker.
\<close>

theorem terminator_closes_span:
  assumes sh: "SHOW_REASONING e" and tl: "trim line = lit ''data: [DONE]''"
  shows "handle_line e True line =
           ([DataRec (buildDeltaChunk (now e) (model e) (lit ''</think>'' @ [NL, NL])),
             Raw (lit ''data: [DONE]'' @ [NL, NL])], False) \<and>
         delta_content (buildDeltaChunk (now e) (model e) (lit ''</think>'' @ [NL, NL])) =
           Some (JStr (lit ''</think>'' @ [NL, NL])) \<and>
         snd (handle_lines e b (ls @ [line])) = False \<and>
         (list_all typed_frame (in_frames e ls) \<longrightarrow>
            map content_text (out_frames (fst (handle_lines e b ls))) =
              map (\<lambda>ps. concat (map render ps)) (fst (stream_pieces e b ls)) \<and>
            snd (handle_lines e b ls) = snd (stream_pieces e b ls) \<and>
            count_list (concat (fst (stream_pieces e b ls))) Opening + (if b then 1 else 0) =
              count_list (concat (fst (stream_pieces e b ls))) Closing +
              count_list (concat (fst (stream_pieces e b ls))) Synthesized +
              (if snd (stream_pieces e b ls) then 1 else 0) \<and>
            map content_text (out_frames (fst (handle_lines e False (ls @ [line])))) =
              map (\<lambda>ps. concat (map render ps)) (fst (stream_pieces e False (ls @ [line]))) \<and>
            count_list (concat (fst (stream_pieces e False (ls @ [line])))) Opening =
              count_list (concat (fst (stream_pieces e False (ls @ [line])))) Closing +
              count_list (concat (fst (stream_pieces e False (ls @ [line])))) Synthesized)"
proof (intro conjI impI)
  show "handle_line e True line =
           ([DataRec (buildDeltaChunk (now e) (model e) (lit ''</think>'' @ [NL, NL])),
             Raw (lit ''data: [DONE]'' @ [NL, NL])], False)"
    using sh tl by (simp add: handle_line_def done_nonempty)
  show "delta_content (buildDeltaChunk (now e) (model e) (lit ''</think>'' @ [NL, NL])) =
           Some (JStr (lit ''</think>'' @ [NL, NL]))"
    by (rule delta_content_final)
  have last: "snd (handle_line e b1 line) = False" for b1
    using sh tl by (simp add: handle_line_def done_nonempty Let_def)
  show closed: "snd (handle_lines e b' (ls @ [line])) = False" for b'
    using last by (simp add: handle_lines_append split_beta)
  assume ty: "list_all typed_frame (in_frames e ls)"
  show "map content_text (out_frames (fst (handle_lines e b ls))) =
              map (\<lambda>ps. concat (map render ps)) (fst (stream_pieces e b ls))"
    and "snd (handle_lines e b ls) = snd (stream_pieces e b ls)"
    using stream_refines [OF sh ty, of b] by simp_all
  show "count_list (concat (fst (stream_pieces e b ls))) Opening + (if b then 1 else 0) =
              count_list (concat (fst (stream_pieces e b ls))) Closing +
              count_list (concat (fst (stream_pieces e b ls))) Synthesized +
              (if snd (stream_pieces e b ls) then 1 else 0)"
    by (rule stream_pieces_balance)
  have ty': "list_all typed_frame (in_frames e (ls @ [line]))"
    using ty by (simp add: typed_append_done [OF tl])
  from stream_refines [OF sh ty', of False]
  show r: "map content_text (out_frames (fst (handle_lines e False (ls @ [line])))) =
              map (\<lambda>ps. concat (map render ps)) (fst (stream_pieces e False (ls @ [line])))"
    by simp
  from stream_refines [OF sh ty', of False] closed [of False]
  have "snd (stream_pieces e False (ls @ [line])) = False" by simp
  with stream_pieces_balance [of e False "ls @ [line]"]
  show "count_list (concat (fst (stream_pieces e False (ls @ [line])))) Opening =
              count_list (concat (fst (stream_pieces e False (ls @ [line])))) Closing +
              count_list (concat (fst (stream_pieces e False (ls @ [line])))) Synthesized"
    by simp
qed

lemma trim_done: "trim (lit ''data: [DONE]'') = lit ''data: [DONE]''"
  by (simp add: trim_def is_ws_def lit_def)

lemma decode_R: "JSON_parse e payload_R = Inr frame_R \<Longrightarrow> decode_line e (lit ''data: '' @ payload_R) = Some frame_R"
  by (simp add: decode_line_def trim_def is_ws_def lit_def payload_R_def frame_R_def)

lemma decode_C: "JSON_parse e payload_C = Inr frame_C \<Longrightarrow> decode_line e (lit ''data: '' @ payload_C) = Some frame_C"
  by (simp add: decode_line_def trim_def is_ws_def lit_def payload_C_def frame_C_def)

lemma scenario_parse_R: "JSON_parse (scenario_env s) payload_R = Inr frame_R"
  by (simp add: scenario_env_def scenario_parse_def)

lemma scenario_parse_C: "JSON_parse (scenario_env s) payload_C = Inr frame_C"
  by (simp add: scenario_env_def scenario_parse_def payload_C_def payload_R_def lit_def)

lemma typed_frame_R: "typed_frame frame_R"
  by (simp add: typed_frame_def typed_text_def delta_reasoning_def delta_content_def first_delta_def
      frame_R_def lit_def)

lemma texts_R:
  "text_of (delta_reasoning frame_R) = lit ''Let me think''" "text_of (delta_content frame_R) = []"
  by (simp_all add: text_of_def delta_reasoning_def delta_content_def first_delta_def frame_R_def lit_def)

lemma scenario_C_pieces:
  "stream_pieces (scenario_env True) False [lit ''data: '' @ payload_R, lit ''data: [DONE]''] =
     ([[Opening, Text (lit ''Let me think'')], [Synthesized]], False)"
proof -
  have ne: "lit ''Let me think'' \<noteq> []" by (simp add: lit_def)
  show ?thesis
    by (simp add: line_pieces_def decode_R [OF scenario_parse_R] decode_line_done trim_done texts_R
        frame_pieces_def ne)
qed

text \<open>Scenario C: one reasoning frame, then the terminator.\<close>

theorem scenario_C_closed:
  "handle_line (scenario_env True) True (lit ''data: [DONE]'') =
     ([DataRec (buildDeltaChunk 1700000000123 (Some (JStr (lit ''gpt-4''))) (lit ''</think>'' @ [NL, NL])),
       Raw (lit ''data: [DONE]'' @ [NL, NL])], False) \<and>
   snd (handle_lines (scenario_env True) False [lit ''data: '' @ payload_R, lit ''data: [DONE]'']) = False \<and>
   map content_text (out_frames (fst (handle_lines (scenario_env True) False
        [lit ''data: '' @ payload_R, lit ''data: [DONE]'']))) =
     [open_marker @ lit ''Let me think'', final_marker]"
proof -
  have sh: "SHOW_REASONING (scenario_env True)" by (simp add: scenario_env_def)
  have ty: "list_all typed_frame (in_frames (scenario_env True) [lit ''data: '' @ payload_R])"
    by (simp add: in_frames_def decode_R [OF scenario_parse_R] typed_frame_R)
  have m: "now (scenario_env True) = 1700000000123" "model (scenario_env True) = Some (JStr (lit ''gpt-4''))"
    by (simp_all add: scenario_env_def)
  note t = terminator_closes_span [OF sh trim_done, of False "[lit ''data: '' @ payload_R]"]
  from t have 1: "handle_line (scenario_env True) True (lit ''data: [DONE]'') =
     ([DataRec (buildDeltaChunk (now (scenario_env True)) (model (scenario_env True)) (lit ''</think>'' @ [NL, NL])),
       Raw (lit ''data: [DONE]'' @ [NL, NL])], False)" by blast
  from t have 2: "snd (handle_lines (scenario_env True) False ([lit ''data: '' @ payload_R] @ [lit ''data: [DONE]''])) = False"
    by blast
  from t ty have 3: "map content_text (out_frames (fst (handle_lines (scenario_env True) False
        ([lit ''data: '' @ payload_R] @ [lit ''data: [DONE]''])))) =
     map (\<lambda>ps. concat (map render ps)) (fst (stream_pieces (scenario_env True) False
        ([lit ''data: '' @ payload_R] @ [lit ''data: [DONE]''])))" by blast
  have a: "[lit ''data: '' @ payload_R] @ [lit ''data: [DONE]''] = [lit ''data: '' @ payload_R, lit ''data: [DONE]'']"
    by simp
  from 1 2 3 show ?thesis
    unfolding a m scenario_C_pieces by simp
qed

lemma decode_T:
  "JSON_parse e payload_T = Inr frame_T \<Longrightarrow> decode_line e (lit ''data: '' @ payload_T) = Some frame_T"
  by (simp add: decode_line_def trim_def is_ws_def lit_def payload_T_def frame_T_def)

lemma scenario_parse_T: "JSON_parse (scenario_env s) payload_T = Inr frame_T"
  by (simp add: scenario_env_def scenario_parse_def payload_C_def payload_R_def payload_E_def
      payload_X_def payload_T_def lit_def)

lemma trim_T: "trim (lit ''data: '' @ payload_T) = lit ''data: '' @ payload_T"
  by (simp add: trim_def is_ws_def lit_def payload_T_def)

lemma splice_R: "splice_frame True False frame_R =
    (Inr (JObj [(lit ''choices'', JArr [JObj [(lit ''delta'',
                JObj [(lit ''content'', JStr (lit ''<think>'' @ [NL] @ lit ''Let me think''))])]])]), True)"
  by (simp add: splice_frame_def first_delta_def frame_R_def nullish_def build_inject_def
      content_value_def put_delta_def lit_def)

lemma splice_T: "splice_frame True True frame_T = (Inl TypeError, False)"
  by (simp add: splice_frame_def first_delta_def frame_T_def nullish_def build_inject_def lit_def)

text \<open>
  C1 fails on the code. With display enabled: a reasoning frame opens the span; the next frame's
  content is an object with a property \<open>toString\<close>, so the splicer appends the closing marker
  to its string and clears the span flag (lines 195-198), and then the conversion of the
  content throws (line 199); the \<open>catch\<close> of lines 212-215 writes the line as it came, and
  the string with the closing marker is dropped. The terminator then finds the span closed
  and synthesizes nothing: the opening marker was written, and no closing marker is.
\<close>

theorem unclosed_after_throw:
  "handle_lines (scenario_env True) False
     [lit ''data: '' @ payload_R, lit ''data: '' @ payload_T, lit ''data: [DONE]''] =
   ([DataRec (JObj [(lit ''choices'', JArr [JObj [(lit ''delta'',
                JObj [(lit ''content'', JStr (lit ''<think>'' @ [NL] @ lit ''Let me think''))])]])]),
     Raw (lit ''data: '' @ payload_T @ [NL]),
     Raw (lit ''data: [DONE]'' @ [NL, NL])], False) \<and>
   occurrences (lit ''</think>'') (lit ''data: '' @ payload_T @ [NL]) = 0"
proof -
  have sh: "SHOW_REASONING (scenario_env True)" by (simp add: scenario_env_def)
  have 1: "handle_line (scenario_env True) False (lit ''data: '' @ payload_R) =
      ([DataRec (JObj [(lit ''choices'', JArr [JObj [(lit ''delta'',
                JObj [(lit ''content'', JStr (lit ''<think>'' @ [NL] @ lit ''Let me think''))])]])])], True)"
    by (simp add: handle_line_decoded [OF decode_R [OF scenario_parse_R]] sh splice_R)
  have 2: "handle_line (scenario_env True) True (lit ''data: '' @ payload_T) =
      ([Raw (lit ''data: '' @ payload_T @ [NL])], False)"
    by (simp add: handle_line_decoded [OF decode_T [OF scenario_parse_T]] sh splice_T trim_T)
  have 3: "handle_line (scenario_env True) False (lit ''data: [DONE]'') =
      ([Raw (lit ''data: [DONE]'' @ [NL, NL])], False)"
    by (simp add: handle_line_undecoded [OF decode_line_done [OF trim_done]] trim_done done_nonempty)
  have 4: "occurrences (lit ''</think>'') (lit ''data: '' @ payload_T @ [NL]) = 0"
    by (simp add: lit_def payload_T_def)
  from 1 2 3 4 show ?thesis by simp
qed

section \<open>The reasoning field in written frames\<close>

lemma delta_reasoning_falsy:
  "first_delta d = Inr (Some delta) \<Longrightarrow> \<not> truthy delta \<Longrightarrow> delta_reasoning d = None"
  by (cases delta) (simp_all add: delta_reasoning_def)

lemma splice_no_reasoning:
  assumes "splice_frame s b d = (Inr d', b')"
  shows "delta_reasoning d' = None"
proof (cases "first_delta d")
  case (Inl err)
  with assms show ?thesis by (simp add: splice_frame_def)
next
  case (Inr dv)
  show ?thesis
  proof (cases dv)
    case None
    with Inr assms show ?thesis by (auto simp: splice_frame_def delta_reasoning_def)
  next
    case (Some delta)
    then have fd: "first_delta d = Inr (Some delta)" using Inr by simp
    show ?thesis
    proof (cases "truthy delta")
      case False
      with fd assms have "d' = d" by (simp add: splice_frame_def)
      with fd False show ?thesis by (simp add: delta_reasoning_falsy)
    next
      case True
      have g: "get_prop (set_prop (lit ''content'') v (delete_prop (lit ''reasoning_content'') delta))
                 (lit ''reasoning_content'') = None" for v
        by (simp add: get_prop_set_other rc_neq_content)
      have h: "get_prop (delete_prop (lit ''content'') (delete_prop (lit ''reasoning_content'') delta))
                 (lit ''reasoning_content'') = None"
        by (simp add: get_prop_delete_other rc_neq_content)
      from assms fd True show ?thesis
        by (auto simp: splice_frame_def Let_def delta_reasoning_put_delta [OF fd] g h
            split: if_splits prod.splits sum.splits)
    qed
  qed
qed

lemma delta_reasoning_final: "delta_reasoning (buildDeltaChunk t m c) = None"
  by (cases m) (simp_all add: delta_reasoning_def first_delta_def buildDeltaChunk_def lit_def)

lemma line_no_reasoning:
  "list_all (\<lambda>d. delta_reasoning d = None) (out_frames (fst (handle_line e b line)))"
proof (cases "decode_line e line")
  case None
  then show ?thesis by (simp add: handle_line_undecoded delta_reasoning_final)
next
  case (Some d)
  obtain r b' where sp: "splice_frame (SHOW_REASONING e) b d = (r, b')"
    by (cases "splice_frame (SHOW_REASONING e) b d")
  show ?thesis
  proof (cases r)
    case (Inl err)
    with Some sp show ?thesis by (simp add: handle_line_decoded)
  next
    case (Inr d')
    with sp have "delta_reasoning d' = None" by (simp add: splice_no_reasoning)
    with Some sp Inr show ?thesis by (simp add: handle_line_decoded)
  qed
qed

lemma choices_neq_delta: "lit ''choices'' \<noteq> lit ''delta''"
  by (simp add: lit_def)

lemma rest_choices_put_delta: "rest_choices (put_delta x d) = rest_choices d"
proof (cases "get_prop d (lit ''choices'')")
  case None
  then show ?thesis by (simp add: put_delta_def)
next
  case (Some ch)
  then obtain kvs where d: "d = JObj kvs" and m: "map_of kvs (lit ''choices'') = Some ch"
    using get_prop_Some_obj by blast
  show ?thesis
  proof (cases "index0 ch")
    case None
    with Some show ?thesis by (simp add: put_delta_def)
  next
    case (Some choice)
    have "rest_choices (JObj (AList.update (lit ''choices'') (set_index0 v ch) kvs)) =
            rest_choices (JObj kvs)" for v
      using m Some
      by (cases ch) (auto simp: rest_choices_def update_conv' split: list.splits)
    with d m Some show ?thesis by (simp add: put_delta_def)
  qed
qed

lemma get_prop_put_delta:
  assumes "k \<noteq> lit ''choices''"
  shows "get_prop (put_delta x d) k = get_prop d k"
  using assms
  by (auto simp: put_delta_def get_prop_set_other split: option.splits)

lemma splice_keeps_rest:
  assumes "splice_frame s b d = (Inr d', b')"
  shows "rest_choices d' = rest_choices d \<and> (\<forall>k. k \<noteq> lit ''choices'' \<longrightarrow> get_prop d' k = get_prop d k)"
proof -
  have "d' = d \<or> (\<exists>x. d' = put_delta x d)"
    using assms
    by (auto simp: splice_frame_def Let_def split: sum.splits option.splits if_splits prod.splits)
  then show ?thesis
    by (auto simp: rest_choices_put_delta get_prop_put_delta)
qed

lemma splice_typed_returns:
  assumes nn: "d \<noteq> JNull" and ty: "typed_frame d"
  shows "\<exists>d' b'. splice_frame s b d = (Inr d', b')"
proof (cases s)
  case False
  with splice_hide [OF nn, of b] show ?thesis by auto
next
  case True
  show ?thesis
  proof (cases "\<exists>kvs. first_delta d = Inr (Some (JObj kvs))")
    case t: True
    then obtain kvs where fd: "first_delta d = Inr (Some (JObj kvs))" by blast
    from ty have t': "typed_text (delta_reasoning d)" "typed_text (delta_content d)"
      by (simp_all add: typed_frame_def)
    from splice_show_obj [OF fd t', of b] True show ?thesis by auto
  next
    case False
    with splice_show_other [OF nn, of b] True show ?thesis by auto
  qed
qed

text \<open>
  C6, as the code has it. In either display mode and from either state of the span: the first
  choice's delta of every frame written as a data record has no reasoning field (the
  synthesized closing record included). A decoded frame that the splicer returns is written
  as one data record, re-serialized: its first choice's delta has no reasoning field, and the
  choices after the first and every member of the frame other than \<open>choices\<close> are as they
  came, a reasoning field in them included. A decoded frame on which the splicer throws is
  not re-serialized: its line is written as it was read, trimmed. The splicer returns on
  every frame whose reasoning and content are each a string, null or absent.
\<close>

theorem first_delta_reasoning_removed:
  "list_all (\<lambda>d. delta_reasoning d = None) (out_frames (fst (handle_lines e b ls))) \<and>
   (decode_line e line = Some d \<and> splice_frame (SHOW_REASONING e) b d = (Inr d', b') \<longrightarrow>
      handle_line e b line = ([DataRec d'], b') \<and>
      delta_reasoning d' = None \<and>
      rest_choices d' = rest_choices d \<and>
      (\<forall>k. k \<noteq> lit ''choices'' \<longrightarrow> get_prop d' k = get_prop d k)) \<and>
   (decode_line e line = Some d \<and> splice_frame (SHOW_REASONING e) b d = (Inl err, b') \<longrightarrow>
      handle_line e b line = ([Raw (trim line @ [NL])], b')) \<and>
   (decode_line e line = Some d \<and> typed_frame d \<longrightarrow>
      (\<exists>d' b'. splice_frame (SHOW_REASONING e) b d = (Inr d', b')))"
proof (intro conjI impI)
  show "list_all (\<lambda>d. delta_reasoning d = None) (out_frames (fst (handle_lines e b ls)))"
  proof (induction ls arbitrary: b)
    case Nil
    show ?case by simp
  next
    case (Cons l ls)
    from line_no_reasoning [of e b l] Cons [of "snd (handle_line e b l)"] show ?case
      by (simp add: split_beta)
  qed
next
  assume a: "decode_line e line = Some d \<and> splice_frame (SHOW_REASONING e) b d = (Inr d', b')"
  then show "handle_line e b line = ([DataRec d'], b')"
    by (simp add: handle_line_decoded)
  from a show "delta_reasoning d' = None" by (auto dest: splice_no_reasoning)
  from a splice_keeps_rest show "rest_choices d' = rest_choices d"
    and "\<forall>k. k \<noteq> lit ''choices'' \<longrightarrow> get_prop d' k = get_prop d k" by blast+
next
  assume "decode_line e line = Some d \<and> splice_frame (SHOW_REASONING e) b d = (Inl err, b')"
  then show "handle_line e b line = ([Raw (trim line @ [NL])], b')"
    by (simp add: handle_line_decoded)
next
  assume a: "decode_line e line = Some d \<and> typed_frame d"
  then have "d \<noteq> JNull" by (auto dest: decode_line_not_null)
  with a show "\<exists>d' b'. splice_frame (SHOW_REASONING e) b d = (Inr d', b')"
    by (auto intro: splice_typed_returns)
qed

lemma decode_2:
  "JSON_parse e payload_2 = Inr two_choices \<Longrightarrow> decode_line e (lit ''data: '' @ payload_2) = Some two_choices"
  by (simp add: decode_line_def trim_def is_ws_def lit_def payload_2_def two_choices_def)

lemma scenario_parse_2: "JSON_parse (scenario_env s) payload_2 = Inr two_choices"
  by (simp add: scenario_env_def scenario_parse_def payload_C_def payload_R_def payload_E_def
      payload_X_def payload_T_def payload_2_def lit_def)

lemma splice_two_choices: "splice_frame s False two_choices = (Inr two_choices, False)"
  by (cases s) (simp_all add: splice_frame_def first_delta_def two_choices_def nullish_def
      build_inject_def content_value_def put_delta_def lit_def)

lemma rest_two_choices:
  "rest_choices two_choices =
     [JObj [(lit ''index'', JNum (lit ''1'')),
            (lit ''delta'', JObj [(lit ''reasoning_content'', JStr (lit ''r''))])]]"
  by (simp add: rest_choices_def two_choices_def lit_def)

text \<open>The same at a frame with two choices, with display enabled: the frame is written as one
  data record, its second choice as it came.\<close>

theorem first_delta_reasoning_removed_witness:
  "handle_line (scenario_env True) False (lit ''data: '' @ payload_2) = ([DataRec two_choices], False) \<and>
   delta_reasoning two_choices = None \<and>
   rest_choices two_choices =
     [JObj [(lit ''index'', JNum (lit ''1'')),
            (lit ''delta'', JObj [(lit ''reasoning_content'', JStr (lit ''r''))])]]"
proof -
  have sh: "SHOW_REASONING (scenario_env True) = True" by (simp add: scenario_env_def)
  have a: "decode_line (scenario_env True) (lit ''data: '' @ payload_2) = Some two_choices \<and>
           splice_frame (SHOW_REASONING (scenario_env True)) False two_choices = (Inr two_choices, False)"
    by (simp add: decode_2 [OF scenario_parse_2] splice_two_choices)
  note t = first_delta_reasoning_removed [of "scenario_env True" False "[]"
      "lit ''data: '' @ payload_2" two_choices two_choices False TypeError]
  from t a have "handle_line (scenario_env True) False (lit ''data: '' @ payload_2) =
      ([DataRec two_choices], False)" "delta_reasoning two_choices = None" by blast+
  then show ?thesis by (simp add: rest_two_choices)
qed

text \<open>
  C6 as stated fails: a frame with two choices, whose second delta has a reasoning field, is
  written unchanged, reasoning field included.
\<close>

theorem other_choice_reasoning_kept:
  "handle_lines (scenario_env True) False [lit ''data: '' @ payload_2] =
     ([DataRec two_choices], False) \<and>
   has_key (lit ''reasoning_content'') two_choices"
proof -
  have sh: "SHOW_REASONING (scenario_env True) = True" by (simp add: scenario_env_def)
  have "handle_line (scenario_env True) False (lit ''data: '' @ payload_2) =
      ([DataRec two_choices], False)"
    by (simp add: handle_line_decoded [OF decode_2 [OF scenario_parse_2]] splice_two_choices)
  moreover have "has_key (lit ''reasoning_content'') two_choices"
    by (simp add: two_choices_def lit_def)
  ultimately show ?thesis by simp
qed

section \<open>Reasoning display disabled\<close>

lemma passed_R: "passed_content frame_R = Some (JStr [])"
  by (simp add: passed_content_def first_delta_def frame_R_def lit_def)

lemma passed_C: "passed_content frame_C = Some (JStr (lit ''The answer is 4''))"
  by (simp add: passed_content_def first_delta_def frame_C_def lit_def)

lemma splice_hide_rest:
  assumes "d \<noteq> JNull"
  shows "\<exists>d'. splice_frame False b d = (Inr d', b) \<and> delta_reasoning d' = None \<and>
              delta_content d' = passed_content d \<and> rest_choices d' = rest_choices d \<and>
              (\<forall>k. k \<noteq> lit ''choices'' \<longrightarrow> get_prop d' k = get_prop d k)"
proof -
  from splice_hide [OF assms, of b] obtain d' where
    d': "splice_frame False b d = (Inr d', b)" "delta_content d' = passed_content d"
      "delta_reasoning d' = None" by blast
  from splice_keeps_rest [OF d'(1)] d' show ?thesis by blast
qed

text \<open>
  C7, as the code has it. With reasoning display disabled, for every sequence of lines: the
  span never opens, no written frame has a reasoning field in its first choice's delta, the
  content of each written frame is the incoming content, with the empty string for a null
  or absent one (so there is one written frame per incoming frame and no synthesized
  record). Every decoded frame is written as one data record, from either state of the span
  and leaving it as it is; its choices after the first and every member of the frame other
  than \<open>choices\<close> are as they came, a reasoning field in them included. The frames of
  scenario D followed by the terminator give the content sequence
  \<open>["", "The answer is 4"]\<close>.
\<close>

theorem display_disabled:
  assumes hide: "\<not> SHOW_REASONING e"
  shows "snd (handle_lines e False ls) = False \<and>
         list_all (\<lambda>d. delta_reasoning d = None) (out_frames (fst (handle_lines e False ls))) \<and>
         map delta_content (out_frames (fst (handle_lines e False ls))) =
           map passed_content (in_frames e ls) \<and>
         (decode_line e line = Some d \<longrightarrow>
            (\<exists>d'. handle_line e b line = ([DataRec d'], b) \<and>
                  delta_reasoning d' = None \<and>
                  delta_content d' = passed_content d \<and>
                  rest_choices d' = rest_choices d \<and>
                  (\<forall>k. k \<noteq> lit ''choices'' \<longrightarrow> get_prop d' k = get_prop d k))) \<and>
         (JSON_parse e payload_R = Inr frame_R \<and> JSON_parse e payload_C = Inr frame_C \<longrightarrow>
            map delta_content (out_frames (fst (handle_lines e False
              [lit ''data: '' @ payload_R, lit ''data: '' @ payload_C, lit ''data: [DONE]'']))) =
            [Some (JStr []), Some (JStr (lit ''The answer is 4''))])"
proof (intro conjI impI)
  show "snd (handle_lines e False ls) = False"
    and "list_all (\<lambda>d. delta_reasoning d = None) (out_frames (fst (handle_lines e False ls)))"
    and "map delta_content (out_frames (fst (handle_lines e False ls))) =
           map passed_content (in_frames e ls)"
    using hide_lines [OF hide, of ls] by simp_all
next
  assume dl: "decode_line e line = Some d"
  then have "d \<noteq> JNull" by (rule decode_line_not_null)
  from splice_hide_rest [OF this, of b] obtain d' where
    d': "splice_frame False b d = (Inr d', b)" "delta_reasoning d' = None"
      "delta_content d' = passed_content d" "rest_choices d' = rest_choices d"
      "\<forall>k. k \<noteq> lit ''choices'' \<longrightarrow> get_prop d' k = get_prop d k" by blast
  from dl d'(1) hide have "handle_line e b line = ([DataRec d'], b)"
    by (simp add: handle_line_decoded)
  with d' show "\<exists>d'. handle_line e b line = ([DataRec d'], b) \<and>
                  delta_reasoning d' = None \<and>
                  delta_content d' = passed_content d \<and>
                  rest_choices d' = rest_choices d \<and>
                  (\<forall>k. k \<noteq> lit ''choices'' \<longrightarrow> get_prop d' k = get_prop d k)"
    by blast
next
  assume p: "JSON_parse e payload_R = Inr frame_R \<and> JSON_parse e payload_C = Inr frame_C"
  have "in_frames e [lit ''data: '' @ payload_R, lit ''data: '' @ payload_C, lit ''data: [DONE]'']
          = [frame_R, frame_C]"
    using p by (simp add: in_frames_def decode_R decode_C decode_line_done trim_done)
  with hide_lines [OF hide, of "[lit ''data: '' @ payload_R, lit ''data: '' @ payload_C, lit ''data: [DONE]'']"]
  show "map delta_content (out_frames (fst (handle_lines e False
              [lit ''data: '' @ payload_R, lit ''data: '' @ payload_C, lit ''data: [DONE]'']))) =
            [Some (JStr []), Some (JStr (lit ''The answer is 4''))]"
    by (simp add: passed_R passed_C)
qed

text \<open>Scenario D in the environment of the scenarios.\<close>

theorem display_disabled_witness:
  "snd (handle_lines (scenario_env False) False
          [lit ''data: '' @ payload_R, lit ''data: '' @ payload_C, lit ''data: [DONE]'']) = False \<and>
   map delta_content (out_frames (fst (handle_lines (scenario_env False) False
          [lit ''data: '' @ payload_R, lit ''data: '' @ payload_C, lit ''data: [DONE]'']))) =
     [Some (JStr []), Some (JStr (lit ''The answer is 4''))]"
proof -
  have hide: "\<not> SHOW_REASONING (scenario_env False)" by (simp add: scenario_env_def)
  note t = display_disabled [OF hide,
      of "[lit ''data: '' @ payload_R, lit ''data: '' @ payload_C, lit ''data: [DONE]'']"]
  from t scenario_parse_R [of False] scenario_parse_C [of False] show ?thesis by blast
qed

text \<open>
  C7 as stated fails: with display disabled, a frame with two choices, whose second delta has
  a reasoning field, is written unchanged, reasoning field included.
\<close>

theorem display_off_other_choice_kept:
  "handle_lines (scenario_env False) False [lit ''data: '' @ payload_2, lit ''data: [DONE]''] =
     ([DataRec two_choices, Raw (lit ''data: [DONE]'' @ [NL, NL])], False) \<and>
   has_key (lit ''reasoning_content'') two_choices"
proof -
  have "handle_line (scenario_env False) False (lit ''data: '' @ payload_2) =
      ([DataRec two_choices], False)"
    by (simp add: handle_line_decoded [OF decode_2 [OF scenario_parse_2]] splice_two_choices)
  moreover have "handle_line (scenario_env False) False (lit ''data: [DONE]'') =
      ([Raw (lit ''data: [DONE]'' @ [NL, NL])], False)"
    by (simp add: handle_line_undecoded [OF decode_line_done [OF trim_done]] trim_done done_nonempty)
  moreover have "has_key (lit ''reasoning_content'') two_choices"
    by (simp add: two_choices_def lit_def)
  ultimately show ?thesis by simp
qed

section \<open>Streams without reasoning\<close>

lemma text_of_content: "text_of (delta_content d) = content_text d"
  by (simp add: text_of_def content_text_def)

lemma spliced_content_only: "spliced False [] c = c"
  by (simp add: spliced_def)

lemma splice_content_only:
  assumes nn: "d \<noteq> JNull" and co: "content_only d"
  shows "\<exists>d'. splice_frame s False d = (Inr d', False) \<and> content_text d' = content_text d"
proof (cases s)
  case False
  from splice_hide [OF nn, of False] obtain d' where
    d': "splice_frame False False d = (Inr d', False)" "delta_content d' = passed_content d" by blast
  have "content_text d' = (case passed_content d of Some (JStr t) \<Rightarrow> t | _ \<Rightarrow> [])"
    by (simp add: content_text_def d'(2))
  also have "\<dots> = content_text d"
    by (auto simp: passed_content_def content_text_def delta_content_def
        split: sum.splits option.splits json.splits)
  finally have "content_text d' = content_text d" .
  with d' False show ?thesis by simp
next
  case True
  show ?thesis
  proof (cases "\<exists>kvs. first_delta d = Inr (Some (JObj kvs))")
    case t: True
    then obtain kvs where fd: "first_delta d = Inr (Some (JObj kvs))" by blast
    from co have ty: "typed_text (delta_reasoning d)" "typed_text (delta_content d)"
      and nr: "text_of (delta_reasoning d) = []"
      by (simp_all add: content_only_def typed_text_def text_of_def)
    from splice_show_obj [OF fd ty, of False] True show ?thesis
      by (auto simp: nr spliced_content_only text_of_content)
  next
    case f: False
    with splice_show_other [OF nn, of False] obtain d' where
      d': "splice_frame True False d = (Inr d', False)" "content_text d' = []" by auto
    from f have "content_text d = []"
      by (auto simp: content_text_def delta_content_def dest: get_prop_Some_obj
          split: sum.splits option.splits json.splits)
    with d' True show ?thesis by simp
  qed
qed

lemma line_content_only:
  assumes "list_all content_only (in_frames e [line])"
  shows "snd (handle_line e False line) = False \<and>
         map content_text (out_frames (fst (handle_line e False line))) =
           map content_text (in_frames e [line])"
proof (cases "decode_line e line")
  case None
  then show ?thesis by (simp add: handle_line_undecoded in_frames_def)
next
  case (Some d)
  then have nn: "d \<noteq> JNull" by (rule decode_line_not_null)
  from assms Some have "content_only d" by (simp add: in_frames_def)
  from splice_content_only [OF nn this, of "SHOW_REASONING e"] obtain d' where
    "splice_frame (SHOW_REASONING e) False d = (Inr d', False)" "content_text d' = content_text d"
    by blast
  with Some show ?thesis by (simp add: handle_line_decoded in_frames_def)
qed

lemma lines_content_only:
  assumes "list_all content_only (in_frames e ls)"
  shows "snd (handle_lines e False ls) = False \<and>
         map content_text (out_frames (fst (handle_lines e False ls))) =
           map content_text (in_frames e ls)"
  using assms
proof (induction ls)
  case Nil
  show ?case by (simp add: in_frames_def)
next
  case (Cons l ls)
  from Cons.prems have p1: "list_all content_only (in_frames e [l])"
    and p2: "list_all content_only (in_frames e ls)"
    by (simp_all add: in_frames_Cons [of e l ls] in_frames_Cons [of e l "[]"] in_frames_def [of e "[]"])
  from line_content_only [OF p1] Cons.IH [OF p2] show ?case
    by (simp add: split_beta in_frames_Cons [of e l ls] in_frames_Cons [of e l "[]"] in_frames_def [of e "[]"])
qed

text \<open>
  C5. For every sequence of lines none of whose frames carries a reasoning field (content
  being a string, null or absent), in either display mode: the span never opens, the
  content texts of the frames written are those of the incoming frames, one for one, so the
  concatenations are equal, and the written content has exactly the occurrences of the
  opening and of the closing tag that the incoming content has: none is added.
\<close>

theorem content_preserved_without_reasoning:
  assumes "list_all content_only (in_frames e ls)"
  shows "snd (handle_lines e False ls) = False \<and>
         map content_text (out_frames (fst (handle_lines e False ls))) =
           map content_text (in_frames e ls) \<and>
         out_text (fst (handle_lines e False ls)) = concat (map content_text (in_frames e ls)) \<and>
         occurrences (lit ''<think>'') (out_text (fst (handle_lines e False ls))) =
           occurrences (lit ''<think>'') (concat (map content_text (in_frames e ls))) \<and>
         occurrences (lit ''</think>'') (out_text (fst (handle_lines e False ls))) =
           occurrences (lit ''</think>'') (concat (map content_text (in_frames e ls)))"
  using lines_content_only [OF assms] by (simp add: out_text_def)

lemma content_only_C: "content_only frame_C"
  by (simp add: content_only_def typed_text_def delta_reasoning_def delta_content_def first_delta_def
      frame_C_def lit_def)

lemma content_text_C: "content_text frame_C = lit ''The answer is 4''"
  by (simp add: content_text_def delta_content_def first_delta_def frame_C_def lit_def)

text \<open>One content frame and the terminator, with display enabled.\<close>

theorem content_preserved_without_reasoning_witness:
  "snd (handle_lines (scenario_env True) False [lit ''data: '' @ payload_C, lit ''data: [DONE]'']) = False \<and>
   out_text (fst (handle_lines (scenario_env True) False
       [lit ''data: '' @ payload_C, lit ''data: [DONE]''])) = lit ''The answer is 4''"
proof -
  have f: "in_frames (scenario_env True) [lit ''data: '' @ payload_C, lit ''data: [DONE]''] = [frame_C]"
    by (simp add: in_frames_def decode_C [OF scenario_parse_C] decode_line_done trim_done)
  have co: "list_all content_only
              (in_frames (scenario_env True) [lit ''data: '' @ payload_C, lit ''data: [DONE]''])"
    unfolding f by (simp add: content_only_C)
  from content_preserved_without_reasoning [OF co] show ?thesis
    unfolding f by (simp add: content_text_C)
qed

section \<open>Passthrough of other lines\<close>

text \<open>
  C4, as the code has it. A line that is not blank and not the terminator, and that lacks the
  data-record prefix or whose payload does not decode, is written as its trimmed text
  followed by one line feed; the span is left as it was and the lines after it are handled
  as they would be without it. That is the line itself followed by a line feed exactly when
  the line has no surrounding white space.
\<close>

theorem passthrough_trimmed:
  assumes ne: "trim line \<noteq> []" and nd: "trim line \<noteq> lit ''data: [DONE]''"
    and bad: "\<not> prefix (lit ''data: '') (trim line) \<or> isl (JSON_parse e (drop 6 (trim line)))"
  shows "handle_line e b line = ([Raw (trim line @ [NL])], b) \<and>
         handle_lines e b (line # rest) =
           (Raw (trim line @ [NL]) # fst (handle_lines e b rest), snd (handle_lines e b rest)) \<and>
         (handle_line e b line = ([Raw (line @ [NL])], b)) = (trim line = line)"
proof -
  have "decode_line e line = None"
    using bad by (auto simp: decode_line_def Let_def isl_def)
  then have h: "handle_line e b line = ([Raw (trim line @ [NL])], b)"
    using ne nd by (simp add: handle_line_undecoded)
  then show ?thesis by (simp add: split_beta)
qed

lemma trim_bad: "trim (lit ''data: {bad'') = lit ''data: {bad''"
  by (simp add: trim_def is_ws_def lit_def)

text \<open>A data record whose payload does not decode, followed by the terminator.\<close>

theorem passthrough_trimmed_witness:
  "handle_line (scenario_env True) True (lit ''data: {bad'') = ([Raw (lit ''data: {bad'' @ [NL])], True) \<and>
   handle_lines (scenario_env True) True [lit ''data: {bad'', lit ''data: [DONE]''] =
     (Raw (lit ''data: {bad'' @ [NL]) # fst (handle_lines (scenario_env True) True [lit ''data: [DONE]'']),
      snd (handle_lines (scenario_env True) True [lit ''data: [DONE]'']))"
proof -
  have ne: "trim (lit ''data: {bad'') \<noteq> []" and nd: "trim (lit ''data: {bad'') \<noteq> lit ''data: [DONE]''"
    by (simp_all add: trim_bad) (simp_all add: lit_def)
  have bad: "\<not> prefix (lit ''data: '') (trim (lit ''data: {bad'')) \<or>
             isl (JSON_parse (scenario_env True) (drop 6 (trim (lit ''data: {bad''))))"
    unfolding trim_bad
    by (simp add: scenario_env_def scenario_parse_def lit_def payload_R_def payload_C_def
        payload_E_def payload_X_def payload_T_def payload_2_def)
  note t = passthrough_trimmed [OF ne nd bad, of True "[lit ''data: [DONE]'']"]
  from t show ?thesis by (simp only: trim_bad)
qed

text \<open>
  C4 as stated fails: the line \<open>"  : ping "\<close> ended by CR LF is written as
  \<open>": ping"\<close> and LF, without its surrounding white space and its carriage return.
\<close>

theorem passthrough_not_identical:
  "rewrite_stream (scenario_env True) [ascii ''  : ping '' @ [0x0D, 0x0A]] = [Raw (lit '': ping'' @ [NL])] \<and>
   toString (ascii ''  : ping '' @ [0x0D, 0x0A]) = lit ''  : ping '' @ [0x0D, NL] \<and>
   lit '': ping'' @ [NL] \<noteq> lit ''  : ping '' @ [0x0D, NL]"
  by (simp add: rewrite_stream_def init_state_def on_data_def toString_def ascii_def lit_def
      handle_line_def trim_def is_ws_def)

section \<open>Chunk boundaries\<close>

lemma split_nl_nonempty [simp]: "split_nl s \<noteq> []"
  by (induction s) simp_all

lemma split_nl_append:
  "split_nl (a @ b) = butlast (split_nl a) @ split_nl (last (split_nl a) @ b)"
proof (induction a)
  case Nil
  show ?case by simp
next
  case (Cons c a)
  obtain x xs where sa: "split_nl a = x # xs" by (cases "split_nl a") simp_all
  show ?case
  proof (cases "c = NL")
    case True
    with Cons sa show ?thesis by simp
  next
    case False
    show ?thesis
    proof (cases "xs = []")
      case True
      with Cons False sa show ?thesis by simp
    next
      case ne: False
      then obtain y ys where "xs = y # ys" by (cases xs) simp_all
      with Cons False sa show ?thesis by simp
    qed
  qed
qed

lemma split_nl_no_nl: "NL \<notin> set s \<Longrightarrow> split_nl s = [s]"
  by (induction s) auto

lemma last_split_nl_no_nl: "NL \<notin> set (last (split_nl s))"
proof (induction s)
  case Nil
  show ?case by simp
next
  case (Cons c s)
  obtain x xs where sa: "split_nl s = x # xs" by (cases "split_nl s") simp_all
  with Cons show ?case by (cases xs) auto
qed

text \<open>The lines handled over a whole stream are the complete lines of the text decoded from
  its chunks, whatever the chunk boundaries.\<close>

lemma on_chunks_lines:
  assumes "NL \<notin> set (buffer st)"
  shows "on_chunks e st cs =
           (fst (handle_lines e (thinkOpen st)
                   (butlast (split_nl (buffer st @ concat (map toString cs))))),
            \<lparr>buffer = last (split_nl (buffer st @ concat (map toString cs))),
             thinkOpen = snd (handle_lines e (thinkOpen st)
                   (butlast (split_nl (buffer st @ concat (map toString cs)))))\<rparr>)"
  using assms
proof (induction cs arbitrary: st)
  case Nil
  then show ?case by (simp add: split_nl_no_nl)
next
  case (Cons c cs)
  let ?st1 = "snd (on_data e st c)"
  have b1: "buffer ?st1 = last (split_nl (buffer st @ toString c))"
    and t1: "thinkOpen ?st1 = snd (handle_lines e (thinkOpen st) (butlast (split_nl (buffer st @ toString c))))"
    and o1: "fst (on_data e st c) = fst (handle_lines e (thinkOpen st) (butlast (split_nl (buffer st @ toString c))))"
    by (simp_all add: on_data_def Let_def split_beta)
  have nl: "NL \<notin> set (buffer ?st1)" unfolding b1 by (rule last_split_nl_no_nl)
  have sp: "split_nl (buffer st @ concat (map toString (c # cs))) =
              butlast (split_nl (buffer st @ toString c)) @
              split_nl (buffer ?st1 @ concat (map toString cs))"
    unfolding b1 using split_nl_append [of "buffer st @ toString c" "concat (map toString cs)"] by simp
  have bl: "butlast (split_nl (buffer st @ concat (map toString (c # cs)))) =
              butlast (split_nl (buffer st @ toString c)) @
              butlast (split_nl (buffer ?st1 @ concat (map toString cs)))"
    unfolding sp by (simp add: butlast_append)
  have la: "last (split_nl (buffer st @ concat (map toString (c # cs)))) =
              last (split_nl (buffer ?st1 @ concat (map toString cs)))"
    unfolding sp by simp
  show ?case
    unfolding bl la
    by (simp add: Cons.IH [OF nl] split_beta handle_lines_append t1 o1 del: concat.simps map_append)
qed

lemma rewrite_stream_lines:
  "rewrite_stream e cs =
     fst (handle_lines e False (butlast (split_nl (concat (map toString cs)))))"
  by (simp add: rewrite_stream_def init_state_def on_chunks_lines)

lemma chunking_of_decoded_text:
  "concat (map toString cs) = concat (map toString cs') \<Longrightarrow> rewrite_stream e cs = rewrite_stream e cs'"
  by (simp add: rewrite_stream_lines)

lemma utf8_decode_ascii: "\<forall>b\<in>set bs. b < 0x80 \<Longrightarrow> utf8_decode bs = bs"
  by (induction bs) simp_all

lemma toString_ascii_append:
  assumes "\<forall>b\<in>set (a @ b). b < 0x80"
  shows "toString (a @ b) = toString a @ toString b"
proof -
  have "\<forall>x\<in>set (map unat (a @ b)). x < 0x80" "\<forall>x\<in>set (map unat a). x < 0x80" "\<forall>x\<in>set (map unat b). x < 0x80"
    using assms by (auto simp: word_less_nat_alt)
  then show ?thesis by (simp add: toString_def utf8_decode_ascii del: map_append) simp
qed

lemma toString_ascii_concat:
  "\<forall>b\<in>set (concat cs). b < 0x80 \<Longrightarrow> concat (map toString cs) = toString (concat cs)"
proof (induction cs)
  case Nil
  show ?case by (simp add: toString_def)
next
  case (Cons c cs)
  then show ?case using toString_ascii_append [of c "concat cs"] by simp
qed

lemma chunking_independent_ascii:
  assumes "concat cs = concat cs'" "\<forall>b\<in>set (concat cs). b < 0x80"
  shows "rewrite_stream e cs = rewrite_stream e cs'"
  using assms by (intro chunking_of_decoded_text) (simp add: toString_ascii_concat)

lemma whole_text:
  "toString (record_head @ record_tail) = lit ''data: '' @ payload_E @ [NL, NL]"
  by (simp add: toString_def record_head_def record_tail_def ascii_def lit_def payload_E_def cont_def)

lemma head_text:
  "toString record_head @ toString record_tail = lit ''data: '' @ payload_X @ [NL, NL]"
  by (simp add: toString_def record_head_def record_tail_def ascii_def lit_def payload_X_def cont_def)

lemma split_record: "NL \<notin> set p \<Longrightarrow> split_nl (p @ [NL, NL]) = [p, [], []]"
  by (induction p) auto

lemma payload_no_nl: "NL \<notin> set (lit ''data: '' @ payload_E)" "NL \<notin> set (lit ''data: '' @ payload_X)"
  by (simp_all add: lit_def payload_E_def payload_X_def)

lemma decode_E:
  "JSON_parse e payload_E = Inr frame_E \<Longrightarrow> decode_line e (lit ''data: '' @ payload_E) = Some frame_E"
  by (simp add: decode_line_def trim_def is_ws_def lit_def payload_E_def frame_E_def)

lemma decode_X:
  "JSON_parse e payload_X = Inr frame_X \<Longrightarrow> decode_line e (lit ''data: '' @ payload_X) = Some frame_X"
  by (simp add: decode_line_def trim_def is_ws_def lit_def payload_X_def frame_X_def)

lemma splice_E: "splice_frame s False frame_E = (Inr frame_E, False)"
  by (cases s) (simp_all add: splice_frame_def first_delta_def frame_E_def nullish_def build_inject_def
      content_value_def put_delta_def lit_def)

lemma splice_X: "splice_frame s False frame_X = (Inr frame_X, False)"
  by (cases s) (simp_all add: splice_frame_def first_delta_def frame_X_def nullish_def build_inject_def
      content_value_def put_delta_def lit_def)

lemma decode_empty: "decode_line e [] = None"
  by (simp add: decode_line_def trim_def)

text \<open>
  C3 fails on the code. The record with content U+00E9 delivered in one chunk is written with
  that content; delivered in two chunks that split the character's two bytes, each chunk is
  decoded on its own and the record is written with two U+FFFD instead.
\<close>

theorem split_character_changes_output:
  assumes pe: "JSON_parse e payload_E = Inr frame_E" and px: "JSON_parse e payload_X = Inr frame_X"
  shows "rewrite_stream e [record_head @ record_tail] = [DataRec frame_E] \<and>
         rewrite_stream e [record_head, record_tail] = [DataRec frame_X] \<and>
         delta_content frame_E = Some (JStr [0xE9]) \<and>
         delta_content frame_X = Some (JStr [0xFFFD, 0xFFFD])"
proof (intro conjI)
  have "rewrite_stream e [record_head @ record_tail] =
          fst (handle_lines e False [lit ''data: '' @ payload_E, []])"
    by (simp add: rewrite_stream_lines whole_text split_record [OF payload_no_nl(1), simplified])
  then show "rewrite_stream e [record_head @ record_tail] = [DataRec frame_E]"
    by (simp add: handle_line_decoded [OF decode_E [OF pe]] splice_E handle_line_undecoded [OF decode_empty] trim_def)
  have "rewrite_stream e [record_head, record_tail] =
          fst (handle_lines e False [lit ''data: '' @ payload_X, []])"
    using head_text by (simp add: rewrite_stream_lines split_record [OF payload_no_nl(2), simplified])
  then show "rewrite_stream e [record_head, record_tail] = [DataRec frame_X]"
    by (simp add: handle_line_decoded [OF decode_X [OF px]] splice_X handle_line_undecoded [OF decode_empty] trim_def)
  show "delta_content frame_E = Some (JStr [0xE9])"
    by (simp add: delta_content_def first_delta_def frame_E_def lit_def)
  show "delta_content frame_X = Some (JStr [0xFFFD, 0xFFFD])"
    by (simp add: delta_content_def first_delta_def frame_X_def lit_def)
qed

lemma scenario_parse_E: "JSON_parse (scenario_env s) payload_E = Inr frame_E"
  by (simp add: scenario_env_def scenario_parse_def payload_C_def payload_R_def payload_E_def lit_def)

lemma scenario_parse_X: "JSON_parse (scenario_env s) payload_X = Inr frame_X"
  by (simp add: scenario_env_def scenario_parse_def payload_C_def payload_R_def payload_E_def payload_X_def lit_def)

text \<open>The same in the environment of the scenarios: the two outputs differ.\<close>

theorem split_character_changes_output_witness:
  "rewrite_stream (scenario_env True) [record_head @ record_tail] = [DataRec frame_E] \<and>
   rewrite_stream (scenario_env True) [record_head, record_tail] = [DataRec frame_X] \<and>
   frame_E \<noteq> frame_X"
proof -
  have "frame_E \<noteq> frame_X" by (simp add: frame_E_def frame_X_def)
  with split_character_changes_output [OF scenario_parse_E scenario_parse_X, of True]
  show ?thesis by blast
qed

section \<open>The non-streaming path\<close>

lemma message_content_mapped:
  "message_content (JObj (opt_field (lit ''index'') i @
       (lit ''message'', JObj [(lit ''role'', r), (lit ''content'', fc)]) # rest)) = Some fc"
  by (simp add: message_content_def opt_field_def lit_def split: option.splits)

lemma to_str_typed: "typed_text v \<Longrightarrow> to_str (nullish_default v (JStr [])) = Inr (text_of v)"
  by (auto simp: typed_text_def nullish_default_def text_of_def split: option.splits json.splits)

text \<open>
  C8, as the code has it. For every choice of a complete response whose message is an object:
  with display enabled and a reasoning field that is a non-empty string (the content being a
  string, null or absent), the returned content is the opening marker, the reasoning, the
  closing marker and the content; and when display is disabled or the reasoning field is
  absent, null or empty, the returned content is the upstream content, with the empty
  string in place of a null or absent one.
\<close>

theorem complete_choice_content:
  assumes msg: "get_prop choice (lit ''message'') = Some (JObj m)"
  shows "(typed_text (map_of m (lit ''content'')) \<and>
          map_of m (lit ''reasoning_content'') = Some (JStr r) \<and> r \<noteq> [] \<longrightarrow>
            (\<exists>c'. map_choice True choice = Inr c' \<and>
                  message_content c' =
                    Some (JStr (open_marker @ r @ close_marker @ text_of (map_of m (lit ''content'')))))) \<and>
         (\<not> s \<or> map_of m (lit ''reasoning_content'') = None \<or>
          map_of m (lit ''reasoning_content'') = Some JNull \<or>
          map_of m (lit ''reasoning_content'') = Some (JStr []) \<longrightarrow>
            (\<exists>c'. map_choice s choice = Inr c' \<and>
                  message_content c' =
                    Some (nullish_default (map_of m (lit ''content'')) (JStr []))))"
proof (intro conjI impI)
  from msg have nn: "choice \<noteq> JNull" by auto
  have m: "nullish_default (get_prop choice (lit ''message'')) (JObj []) = JObj m"
    using msg by (simp add: nullish_default_def)
  {
    assume a: "typed_text (map_of m (lit ''content'')) \<and>
          map_of m (lit ''reasoning_content'') = Some (JStr r) \<and> r \<noteq> []"
    then have ts: "to_str (nullish_default (map_of m (lit ''content'')) (JStr [])) =
                     Inr (text_of (map_of m (lit ''content'')))"
      by (simp add: to_str_typed)
    show "\<exists>c'. map_choice True choice = Inr c' \<and>
                  message_content c' =
                    Some (JStr (open_marker @ r @ close_marker @ text_of (map_of m (lit ''content''))))"
      using nn a
      by (simp add: map_choice_def m Let_def ts nullish_def message_content_mapped
          open_marker_def close_marker_def)
  }
  {
    assume b: "\<not> s \<or> map_of m (lit ''reasoning_content'') = None \<or>
          map_of m (lit ''reasoning_content'') = Some JNull \<or>
          map_of m (lit ''reasoning_content'') = Some (JStr [])"
    then have c: "(s \<and> (case get_prop (JObj m) (lit ''reasoning_content'') of
                            None \<Rightarrow> False | Some r \<Rightarrow> truthy r)) = False"
      by auto
    show "\<exists>c'. map_choice s choice = Inr c' \<and>
                  message_content c' =
                    Some (nullish_default (map_of m (lit ''content'')) (JStr []))"
      using nn by (simp add: map_choice_def m Let_def message_content_mapped c del: get_prop.simps)
        (simp add: message_content_mapped)
  }
qed

text \<open>A choice with reasoning and content, and one with content only.\<close>

theorem complete_choice_content_witness:
  "(\<exists>c'. map_choice True
            (answer_choice [(lit ''role'', JStr (lit ''assistant'')),
                            (lit ''content'', JStr (lit ''4'')),
                            (lit ''reasoning_content'', JStr (lit ''2+2''))]) = Inr c' \<and>
          message_content c' = Some (JStr (open_marker @ lit ''2+2'' @ close_marker @ lit ''4''))) \<and>
   (\<exists>c'. map_choice True
            (answer_choice [(lit ''role'', JStr (lit ''assistant'')),
                            (lit ''content'', JStr (lit ''4''))]) = Inr c' \<and>
          message_content c' = Some (JStr (lit ''4'')))"
proof -
  have g: "get_prop (answer_choice m) (lit ''message'') = Some (JObj m)" for m
    by (simp add: answer_choice_def lit_def)
  have a: "\<exists>c'. map_choice True
            (answer_choice [(lit ''role'', JStr (lit ''assistant'')),
                            (lit ''content'', JStr (lit ''4'')),
                            (lit ''reasoning_content'', JStr (lit ''2+2''))]) = Inr c' \<and>
          message_content c' = Some (JStr (open_marker @ lit ''2+2'' @ close_marker @ lit ''4''))"
    using complete_choice_content [OF g [of "[(lit ''role'', JStr (lit ''assistant'')),
                            (lit ''content'', JStr (lit ''4'')),
                            (lit ''reasoning_content'', JStr (lit ''2+2''))]"], of "lit ''2+2''" True]
    by (simp add: typed_text_def text_of_def lit_def)
  have b: "\<exists>c'. map_choice True
            (answer_choice [(lit ''role'', JStr (lit ''assistant'')),
                            (lit ''content'', JStr (lit ''4''))]) = Inr c' \<and>
          message_content c' = Some (JStr (lit ''4''))"
    using complete_choice_content [OF g [of "[(lit ''role'', JStr (lit ''assistant'')),
                            (lit ''content'', JStr (lit ''4''))]"], of "[]" True]
    by (simp add: nullish_default_def lit_def)
  from a b show ?thesis by blast
qed

text \<open>
  C8 as stated fails: a choice without reasoning whose content is null (as with a tool call)
  is returned with the empty string as content, not unchanged.
\<close>

theorem null_content_becomes_empty:
  "map_choice True
     (answer_choice [(lit ''role'', JStr (lit ''assistant'')), (lit ''content'', JNull)]) =
   Inr (answer_choice [(lit ''role'', JStr (lit ''assistant'')), (lit ''content'', JStr [])]) \<and>
   message_content (answer_choice [(lit ''role'', JStr (lit ''assistant'')), (lit ''content'', JNull)])
     = Some JNull \<and>
   message_content (answer_choice [(lit ''role'', JStr (lit ''assistant'')), (lit ''content'', JStr [])])
     = Some (JStr [])"
  by (simp add: map_choice_def answer_choice_def message_content_def nullish_default_def opt_field_def
      lit_def)

section \<open>Defaults of the request body\<close>

lemma body_temperature:
  "get_prop (nimRequestBody nm ms t mt st) (lit ''temperature'') = Some (nullish_default t (JNum (lit ''0.6'')))"
  by (simp add: nimRequestBody_def opt_field_def lit_def split: option.splits)

lemma body_max_tokens:
  "get_prop (nimRequestBody nm ms t mt st) (lit ''max_tokens'') = Some (or_default mt (JNum (lit ''16384'')))"
  by (simp add: nimRequestBody_def opt_field_def lit_def split: option.splits)

lemma body_stream:
  "get_prop (nimRequestBody nm ms t mt st) (lit ''stream'') = Some (or_default st (JBool False))"
  by (simp add: nimRequestBody_def opt_field_def lit_def split: option.splits)

text \<open>
  C10. In the upstream request body: a temperature of 0 is forwarded as 0, an absent or null
  temperature becomes 0.6, and every other temperature is forwarded; a \<open>max_tokens\<close> of 0,
  an absent one and every falsy one become 16384, and a truthy one is forwarded; an absent
  \<open>stream\<close> becomes \<open>false\<close>.
\<close>

theorem request_defaults:
  "get_prop (nimRequestBody nm ms (Some (JNum (lit ''0''))) mt st) (lit ''temperature'')
     = Some (JNum (lit ''0'')) \<and>
   get_prop (nimRequestBody nm ms None mt st) (lit ''temperature'') = Some (JNum (lit ''0.6'')) \<and>
   get_prop (nimRequestBody nm ms (Some JNull) mt st) (lit ''temperature'') = Some (JNum (lit ''0.6'')) \<and>
   (t \<noteq> JNull \<longrightarrow> get_prop (nimRequestBody nm ms (Some t) mt st) (lit ''temperature'') = Some t) \<and>
   get_prop (nimRequestBody nm ms tp (Some (JNum (lit ''0''))) st) (lit ''max_tokens'')
     = Some (JNum (lit ''16384'')) \<and>
   get_prop (nimRequestBody nm ms tp None st) (lit ''max_tokens'') = Some (JNum (lit ''16384'')) \<and>
   (\<not> truthy x \<longrightarrow>
      get_prop (nimRequestBody nm ms tp (Some x) st) (lit ''max_tokens'') = Some (JNum (lit ''16384''))) \<and>
   (truthy x \<longrightarrow> get_prop (nimRequestBody nm ms tp (Some x) st) (lit ''max_tokens'') = Some x) \<and>
   get_prop (nimRequestBody nm ms tp mt None) (lit ''stream'') = Some (JBool False)"
  by (simp add: body_temperature body_max_tokens body_stream nullish_default_def or_default_def)

text \<open>A temperature of 0.7 with an empty-string and with a numeric \<open>max_tokens\<close>.\<close>

theorem request_defaults_witness:
  "get_prop (nimRequestBody (Some (JStr (lit ''meta/llama-3.3-70b-instruct''))) (Some (JArr []))
       (Some (JNum (lit ''0.7''))) (Some (JStr [])) None) (lit ''temperature'') = Some (JNum (lit ''0.7'')) \<and>
   get_prop (nimRequestBody (Some (JStr (lit ''meta/llama-3.3-70b-instruct''))) (Some (JArr []))
       (Some (JNum (lit ''0.7''))) (Some (JStr [])) None) (lit ''max_tokens'') = Some (JNum (lit ''16384'')) \<and>
   get_prop (nimRequestBody (Some (JStr (lit ''meta/llama-3.3-70b-instruct''))) (Some (JArr []))
       (Some (JNum (lit ''0.7''))) (Some (JNum (lit ''256''))) None) (lit ''max_tokens'') = Some (JNum (lit ''256''))"
proof -
  note a = request_defaults [of "Some (JStr (lit ''meta/llama-3.3-70b-instruct''))" "Some (JArr [])"
      "Some (JStr [])" None "JNum (lit ''0.7'')" "Some (JNum (lit ''0.7''))" "JStr []"]
  note b = request_defaults [of "Some (JStr (lit ''meta/llama-3.3-70b-instruct''))" "Some (JArr [])"
      "Some (JNum (lit ''256''))" None "JNum (lit ''0.7'')" "Some (JNum (lit ''0.7''))" "JNum (lit ''256'')"]
  have t: "JNum (lit ''0.7'') \<noteq> JNull" "\<not> truthy (JStr [])" "truthy (JNum (lit ''256''))"
    by (simp_all add: lit_def)
  from a b t show ?thesis by blast
qed

section \<open>The error path\<close>

lemma write_keeps_records:
  "list_all is_record (body res) \<Longrightarrow> list_all is_record (body (foldl res_write res ws))"
  by (induction ws arbitrary: res) (simp_all add: res_write_def)

lemma write_sets_headers:
  "ws \<noteq> [] \<Longrightarrow> headersSent (foldl res_write res ws)"
proof (induction ws arbitrary: res rule: rev_induct)
  case Nil
  then show ?case by simp
next
  case (snoc w ws)
  show ?case by (simp add: res_write_def)
qed

lemma records_no_error: "list_all is_record xs \<Longrightarrow> \<not> list_ex is_error_body xs"
  by (induction xs) (auto elim: is_record.elims)

lemma detail_json:
  "response_data err \<noteq> Some StreamData \<Longrightarrow> detail_of err \<noteq> Some StreamData"
  by (auto simp: detail_of_def split: option.splits err_data.splits)

lemma catch_block_json:
  assumes "response_data err \<noteq> Some StreamData"
  shows "catch_block str err res =
           Inr (if \<not> headersSent res
                then res_json (JNum (decimal (status_of err)))
                       (error_body str (JNum (decimal (status_of err)))
                          (json_detail err)) res
                else res)"
  using detail_json [OF assms]
  by (auto simp: catch_block_def Let_def json_detail_def split: option.splits err_data.splits)

lemma catch_block_sent:
  "headersSent res \<Longrightarrow> catch_block str err res = Inr r \<Longrightarrow> r = res"
  by (auto simp: catch_block_def Let_def split: option.splits err_data.splits)

lemma decimal_500: "decimal 500 = lit ''500''"
  by (simp add: decimal.simps [of 500] decimal.simps [of 50] decimal.simps [of 5] lit_def)

lemma decimal_401: "decimal 401 = lit ''401''"
  by (simp add: decimal.simps [of 401] decimal.simps [of 40] decimal.simps [of 4] lit_def)

lemma thrown_json [simp]: "response_data (thrown tm) \<noteq> Some StreamData"
  by (simp add: thrown_def)

text \<open>
  C9, as the code has it. Once a record has been written the headers are sent; with the
  headers sent, a \<open>catch\<close> block that returns leaves the response as it is; and no response
  the handler produces carries both a record of the stream and a JSON error body. An error
  caught before any header is sent, whose data is absent or a JSON value, is answered with
  the JSON error object and the upstream's status or 500: so when the upstream call fails
  without a response or with a decoded error body, and when the translation of a complete
  response throws. A stream that the upstream has begun is answered with records only,
  whether it ends or raises an error.
\<close>

theorem error_after_bytes:
  "(ws \<noteq> [] \<longrightarrow> headersSent (foldl res_write new_response ws)) \<and>
   (headersSent res \<and> catch_block str err res = Inr r \<longrightarrow> r = res) \<and>
   (chat_completions e str tm k up = Inr r \<longrightarrow>
      \<not> (list_ex is_record (body r) \<and> list_ex is_error_body (body r))) \<and>
   (\<not> headersSent res \<and> response_data err \<noteq> Some StreamData \<longrightarrow>
      catch_block str err res =
        Inr (res_json (JNum (decimal (status_of err)))
               (error_body str (JNum (decimal (status_of err)))
                  (json_detail err)) res)) \<and>
   (response_data err \<noteq> Some StreamData \<longrightarrow>
      chat_completions e str tm True (Failed err) =
        Inr \<lparr>headersSent = True,
             body = [JsonBody (JNum (decimal (status_of err)))
                       (error_body str (JNum (decimal (status_of err)))
                          (json_detail err))],
             ended = True\<rparr>) \<and>
   (isl (complete_body e data) \<longrightarrow>
      chat_completions e str tm True (Complete data) =
        Inr \<lparr>headersSent = True,
             body = [JsonBody (JNum (lit ''500''))
                       (error_body str (JNum (lit ''500'')) (Some (JStr tm)))],
             ended = True\<rparr>) \<and>
   (\<exists>r'. chat_completions e str tm True (Streaming cs ok) = Inr r' \<and>
          list_all is_record (body r'))"
proof (intro conjI impI)
  show "headersSent (foldl res_write new_response ws)" if "ws \<noteq> []"
    using that by (rule write_sets_headers)
  show "r = res" if "headersSent res \<and> catch_block str err res = Inr r"
    using that catch_block_sent by blast
  have st: "list_all is_record (body (res_end (foldl res_write new_response (rewrite_stream e cs))))" for cs
    using write_keeps_records [of new_response "rewrite_stream e cs"]
    by (simp add: res_end_def new_response_def)
  show "\<exists>r'. chat_completions e str tm True (Streaming cs ok) = Inr r' \<and> list_all is_record (body r')"
    using st [of cs] by (simp add: chat_completions_def)
  show "\<not> (list_ex is_record (body r) \<and> list_ex is_error_body (body r))"
    if c: "chat_completions e str tm k up = Inr r"
  proof (cases k)
    case False
    with c show ?thesis by (auto simp: chat_completions_def res_json_def new_response_def)
  next
    case True
    show ?thesis
    proof (cases up)
      case (Failed err')
      with True c show ?thesis
        by (auto simp: chat_completions_def catch_block_def Let_def res_json_def new_response_def
            split: option.splits err_data.splits)
    next
      case (Streaming cs' ok')
      with True c have "r = res_end (foldl res_write new_response (rewrite_stream e cs'))"
        by (simp add: chat_completions_def)
      with st [of cs'] records_no_error show ?thesis by blast
    next
      case (Complete data')
      with True c show ?thesis
        by (auto simp: chat_completions_def catch_block_def Let_def res_json_def new_response_def
            thrown_def detail_of_def split: sum.splits)
    qed
  qed
  show "catch_block str err res =
        Inr (res_json (JNum (decimal (status_of err)))
               (error_body str (JNum (decimal (status_of err)))
                  (json_detail err)) res)"
    if "\<not> headersSent res \<and> response_data err \<noteq> Some StreamData"
    using that by (simp add: catch_block_json)
  show "chat_completions e str tm True (Failed err) =
        Inr \<lparr>headersSent = True,
             body = [JsonBody (JNum (decimal (status_of err)))
                       (error_body str (JNum (decimal (status_of err)))
                          (json_detail err))],
             ended = True\<rparr>"
    if "response_data err \<noteq> Some StreamData"
    using that by (simp add: chat_completions_def catch_block_json res_json_def new_response_def)
  show "chat_completions e str tm True (Complete data) =
        Inr \<lparr>headersSent = True,
             body = [JsonBody (JNum (lit ''500''))
                       (error_body str (JNum (lit ''500'')) (Some (JStr tm)))],
             ended = True\<rparr>"
    if "isl (complete_body e data)"
  proof -
    have "json_detail (thrown tm) = Some (JStr tm)"
      by (simp add: json_detail_def detail_of_def thrown_def)
    moreover have "JNum (decimal (status_of (thrown tm))) = JNum (lit ''500'')"
      by (simp add: thrown_def status_of_def decimal_500)
    ultimately show ?thesis using that
      by (auto simp: chat_completions_def catch_block_json res_json_def new_response_def isl_def)
  qed
qed

text \<open>The same at one written record, and at an upstream call refused with status 401 and a
  JSON error body.\<close>

theorem error_after_bytes_witness:
  "headersSent (foldl res_write new_response [Raw (lit ''data: [DONE]'' @ [NL, NL])]) \<and>
   chat_completions (scenario_env True) (\<lambda>j. lit ''{}'') [] True (Failed unauthorized) =
     Inr \<lparr>headersSent = True,
          body = [JsonBody (JNum (lit ''401''))
                    (error_body (\<lambda>j. lit ''{}'') (JNum (lit ''401''))
                       (Some (JObj [(lit ''detail'', JStr (lit ''Unauthorized''))])))],
          ended = True\<rparr>"
proof -
  have a: "[Raw (lit ''data: [DONE]'' @ [NL, NL])] \<noteq> []" by simp
  have b: "response_data unauthorized \<noteq> Some StreamData" by (simp add: unauthorized_def)
  have c: "JNum (decimal (status_of unauthorized)) = JNum (lit ''401'')"
    by (simp add: unauthorized_def status_of_def decimal_401)
  have d: "json_detail unauthorized = Some (JObj [(lit ''detail'', JStr (lit ''Unauthorized''))])"
    by (simp add: json_detail_def detail_of_def unauthorized_def)
  note t = error_after_bytes [of "[Raw (lit ''data: [DONE]'' @ [NL, NL])]" new_response
      "\<lambda>j. lit ''{}''" unauthorized new_response "scenario_env True" "[]" True "Failed unauthorized"
      JNull "[]" True]
  from t a have 1: "headersSent (foldl res_write new_response [Raw (lit ''data: [DONE]'' @ [NL, NL])])"
    by blast
  from t b have 2: "chat_completions (scenario_env True) (\<lambda>j. lit ''{}'') [] True (Failed unauthorized) =
        Inr \<lparr>headersSent = True,
             body = [JsonBody (JNum (decimal (status_of unauthorized)))
                       (error_body (\<lambda>j. lit ''{}'') (JNum (decimal (status_of unauthorized)))
                          (json_detail unauthorized))],
             ended = True\<rparr>"
    by blast
  from 1 2 show ?thesis unfolding c d by simp
qed

text \<open>
  C9 as stated fails: an error of the upstream stream before any record is written ends the
  response with no body at all, not with a JSON error object (lines 220-223). The same
  evaluation at an upstream that refuses a streaming request with status 401: the error's
  data is the response stream, line 258 throws on it before the guard, and nothing is sent.
\<close>

theorem stream_error_before_first_byte:
  "chat_completions (scenario_env True) (\<lambda>j. lit ''{}'') [] True (Streaming [] False) =
     Inr \<lparr>headersSent = True, body = [], ended = True\<rparr> \<and>
   chat_completions (scenario_env True) (\<lambda>j. lit ''{}'') [] True (Failed unauthorized_stream) =
     Inl TypeError"
  by (simp add: chat_completions_def rewrite_stream_def init_state_def res_end_def new_response_def
      catch_block_def detail_of_def unauthorized_stream_def)

end
